theory Spec2Isabelle
  imports Main
begin

section \<open>The program representation\<close>

text \<open>
  The session of the read-eval-print engine keeps one Go syntax tree (\<open>s.file\<close>) and a
  pointer to the body of its entry point (\<open>s.mainBody\<close>). Only the parts of \<open>go/ast\<close>
  that the engine inspects are kept apart; everything else is carried by its source text.
\<close>

datatype expr =
    Ident string
  | CallExpr expr "expr list"
  | OtherExpr string

datatype stmt =
    ExprStmt expr
  | AssignStmt "expr list" "expr list"
  | OtherStmt string

text \<open>
  A \<open>*ast.BlockStmt\<close>. \<open>MainBlock\<close> is the one block that \<open>s.mainBody\<close> points to: it is
  mutated in place through that pointer, so its statement list lives in the session
  (field \<open>mainBody\<close>) and every declaration that shares the pointer sees the update.
  \<open>Block ss\<close> is any other block; the engine never writes to one.
\<close>

datatype block = MainBlock | Block "stmt list"

text \<open>
  A top-level declaration: \<open>*ast.FuncDecl\<close> with its name and body, or \<open>*ast.GenDecl\<close>
  (import, const, type, var), which the engine only moves around. In the session's file
  the import declarations, which come first, are kept as the list of imported paths
  (\<open>ast.File.Imports\<close>) and \<open>Decls\<close> holds the declarations after them.
\<close>

datatype decl = FuncDecl string block | GenDecl string

record ast_File =
  Imports :: "string list"
  Decls :: "decl list"

datatype error =
    ParseError string
  | EvalFuncError
  | InvalidToken string
  | ErrContinue
  | ErrQuit
  | ErrCmdRun
  | ArgumentRequired
  | ImportError string
  | CannotGetType expr
  | CommandError string error
  | CommandNotFound string
  | ExitError int
  | OtherError string
  | Panic

text \<open>
  The fields of \<open>Session\<close> that the evaluation engine reads and writes. \<open>stdout\<close> and
  \<open>stderr\<close> hold what the engine itself prints (one entry per line), not the output of
  the child process.
\<close>

record session =
  file' :: ast_File
  mainBody :: "stmt list"
  lastStmts :: "stmt list"
  lastDecls :: "decl list"
  autoImport :: bool
  stdout :: "string list"
  stderr :: "error list"

definition printerName :: string where
  "printerName = ''__gore_p''"

section \<open>Checkpoint and rollback\<close>

text \<open>
  \<open>storeCode\<close>: \<open>lastStmts\<close> takes the slice header of the body (appending to the body
  later never writes below its length), and \<open>lastDecls\<close> is made as long as \<open>Decls\<close>
  before \<open>copy\<close>, so it receives every element.
\<close>

definition storeCode :: "session \<Rightarrow> session" where
  "storeCode s = s\<lparr>lastStmts := mainBody s, lastDecls := Decls (file' s)\<rparr>"

text \<open>The inner loop of \<open>restoreCode\<close>: the first function of the checkpoint with that name.\<close>

fun lastVersion :: "string \<Rightarrow> decl list \<Rightarrow> decl list" where
  "lastVersion name [] = []"
| "lastVersion name (FuncDecl n b # lds) =
     (if n = name then [FuncDecl n b] else lastVersion name lds)"
| "lastVersion name (GenDecl g # lds) = lastVersion name lds"

text \<open>The outer loop, with the slice \<open>decls\<close> that it appends to.\<close>

fun restoreDecls :: "decl list \<Rightarrow> decl list \<Rightarrow> decl list \<Rightarrow> decl list" where
  "restoreDecls lds [] decls = decls"
| "restoreDecls lds (FuncDecl n b # ds) decls =
     (if n \<noteq> ''main''
      then restoreDecls lds ds (decls @ lastVersion n lds)
      else restoreDecls lds ds (decls @ [FuncDecl n b]))"
| "restoreDecls lds (GenDecl g # ds) decls = restoreDecls lds ds (decls @ [GenDecl g])"

definition restoreCode :: "session \<Rightarrow> session" where
  "restoreCode s =
     s\<lparr>mainBody := lastStmts s,
       file' := (file' s)\<lparr>Decls := restoreDecls (lastDecls s) (Decls (file' s)) []\<rparr>\<rparr>"

subsection \<open>What the specification says of restore\<close>


fun funcNames :: "decl list \<Rightarrow> string list" where
  "funcNames [] = []"
| "funcNames (FuncDecl n b # ds) = n # funcNames ds"
| "funcNames (GenDecl g # ds) = funcNames ds"

definition isFuncNamed :: "string \<Rightarrow> decl \<Rightarrow> bool" where
  "isFuncNamed name d = (case d of FuncDecl n b \<Rightarrow> n = name | GenDecl g \<Rightarrow> False)"

definition checkpointVersion :: "decl list \<Rightarrow> string \<Rightarrow> decl option" where
  "checkpointVersion lds name = find (isFuncNamed name) lds"

text \<open>
  The specification's rule for one declaration: a function other than the entry point is
  replaced by the checkpoint's function of the same name, or dropped when the checkpoint
  has none; any other declaration is kept.
\<close>

definition restore_spec :: "decl list \<Rightarrow> decl \<Rightarrow> decl list" where
  "restore_spec lds d =
     (case d of
        FuncDecl n b \<Rightarrow>
          (if n \<noteq> ''main''
           then (case checkpointVersion lds n of Some ld \<Rightarrow> [ld] | None \<Rightarrow> [])
           else [d])
      | GenDecl g \<Rightarrow> [d])"

section \<open>The external facilities\<close>

text \<open>
  What the engine asks of the Go tool chain and of code outside these files. Each is a
  parameter, and nothing is assumed of it beyond its type. The type of the two quick-fix
  steps says that they read and write the program (\<open>s.file\<close> and \<open>s.mainBody\<close>) and
  leave the checkpoint alone; nothing in these files but \<open>storeCode\<close>, \<open>init\<close> and the edit
  command writes the checkpoint.
\<close>

type_synonym program = "ast_File \<times> stmt list"

datatype token = EOF | ILLEGAL | OtherToken

datatype gotype = InvalidType | Type string

datatype action =
    ActionImport | ActionType | ActionPrint | ActionWrite | ActionClear
  | ActionDoc | ActionHelp | ActionQuit | ActionEdit | ActionRun

text \<open>
  \<^item> \<open>ParseExpr\<close>, \<open>ParseFile\<close>: \<open>go/parser\<close>, with the message of the error on the left;
    \<open>ParseFile\<close> gives the file's \<open>Decls\<close>.
  \<^item> \<open>Scan\<close>: the results of \<open>scanner.Scan\<close> on the input, in order, up to the first \<open>EOF\<close>.
  \<^item> \<open>Import\<close>: \<open>s.types.Importer.Import\<close>; \<open>None\<close> when the package resolves, the message
    of the error otherwise.
  \<^item> \<open>TypeOf\<close>: \<open>types.Check\<close> on the file followed by \<open>typeInfo.TypeOf\<close>.
  \<^item> \<open>goRun\<close>: printing the file to the scratch path and \<open>go run\<close>; \<open>ExitError st\<close> is an
    \<open>*exec.ExitError\<close> whose wait status has exit status \<open>st\<close>.
  \<^item> \<open>importsProcess\<close>: \<open>printer.Fprint\<close>, \<open>imports.Process\<close> and the re-parse of
    \<open>fixImports\<close>, from the program to the program that replaces it.
  \<^item> \<open>quickFixClear\<close>, \<open>quickFixApply\<close>: the bodies of \<open>clearQuickFix\<close> and \<open>doQuickFix\<close>,
    which are not in these files.
  \<^item> \<open>matches\<close>: \<open>commandName.matches\<close>; \<open>otherAction\<close>: the commands that only do I/O.
\<close>

record env =
  ParseExpr :: "string \<Rightarrow> string + expr"
  ParseFile :: "string \<Rightarrow> string + decl list"
  Scan :: "string \<Rightarrow> (token \<times> string) list"
  Import :: "string \<Rightarrow> string option"
  TypeOf :: "program \<Rightarrow> expr \<Rightarrow> gotype option"
  goRun :: "program \<Rightarrow> error option"
  importsProcess :: "program \<Rightarrow> error + program"
  quickFixClear :: "program \<Rightarrow> program"
  quickFixApply :: "program \<Rightarrow> program"
  matches :: "string \<Rightarrow> string \<Rightarrow> bool"
  otherAction :: "action \<Rightarrow> string \<Rightarrow> session \<Rightarrow> error option \<times> session"

definition program :: "session \<Rightarrow> program" where
  "program s = (file' s, mainBody s)"

definition setProgram :: "program \<Rightarrow> session \<Rightarrow> session" where
  "setProgram p s = s\<lparr>file' := fst p, mainBody := snd p\<rparr>"

definition clearQuickFix :: "env \<Rightarrow> session \<Rightarrow> session" where
  "clearQuickFix env s = setProgram (quickFixClear env (program s)) s"

definition doQuickFix :: "env \<Rightarrow> session \<Rightarrow> session" where
  "doQuickFix env s = setProgram (quickFixApply env (program s)) s"

text \<open>
  \<open>fixImports\<close>: an error of the printer or of \<open>imports.Process\<close> leaves the session as it
  is; otherwise the re-parsed file replaces \<open>s.file\<close> and \<open>s.mainBody\<close> is pointed at its
  entry point. (\<open>imports.Process\<close> returns formatted source, so the re-parse is taken to
  succeed.)
\<close>

definition fixImports :: "env \<Rightarrow> session \<Rightarrow> error option \<times> session" where
  "fixImports env s =
     (case importsProcess env (program s) of
        Inl err \<Rightarrow> (Some err, s)
      | Inr p \<Rightarrow> (None, setProgram p s))"

text \<open>\<open>Run\<close>; the auxiliary files handed to \<open>go run\<close> with the session's file are not kept here.\<close>

definition Run :: "env \<Rightarrow> session \<Rightarrow> error option" where
  "Run env s = goRun env (program s)"

section \<open>The tree splicer\<close>

definition appendStatements :: "stmt list \<Rightarrow> session \<Rightarrow> session" where
  "appendStatements stmts s = s\<lparr>mainBody := mainBody s @ stmts\<rparr>"

definition evalExpr :: "env \<Rightarrow> string \<Rightarrow> session \<Rightarrow> (error + expr) \<times> session" where
  "evalExpr env inp s =
     (case ParseExpr env inp of
        Inl msg \<Rightarrow> (Inl (ParseError msg), s)
      | Inr e \<Rightarrow> (Inr e, appendStatements [ExprStmt (CallExpr (Ident printerName) [e])] s))"

fun isNamedIdent :: "expr \<Rightarrow> string \<Rightarrow> bool" where
  "isNamedIdent (Ident n) name = (n = name)"
| "isNamedIdent e name = False"

text \<open>\<open>f.Scope.Lookup(name).Decl.(*ast.FuncDecl).Body\<close>: the first function declared so.\<close>

fun funcBody :: "string \<Rightarrow> decl list \<Rightarrow> block option" where
  "funcBody name [] = None"
| "funcBody name (FuncDecl n b # ds) = (if n = name then Some b else funcBody name ds)"
| "funcBody name (GenDecl g # ds) = funcBody name ds"

text \<open>The statement that \<open>evalStmt\<close> adds after the parsed ones, if any.\<close>

definition printLastValues :: "stmt list \<Rightarrow> stmt list" where
  "printLastValues stmts =
     (if length stmts > 0 then
        (case last stmts of
           AssignStmt lhs rhs \<Rightarrow>
             (let vs = filter (\<lambda>v. \<not> isNamedIdent v ''_'') lhs
              in if length vs > 0 then [ExprStmt (CallExpr (Ident printerName) vs)] else [])
         | ExprStmt e \<Rightarrow> []
         | OtherStmt t \<Rightarrow> [])
      else [])"

definition stmtSource :: "string \<Rightarrow> string" where
  "stmtSource inp = ''package P; func F() { '' @ inp @ '' }''"

text \<open>
  A source that parses starts with \<open>func F() {\<close>, so the lookup of \<open>F\<close> finds a body; the
  nil dereference that Go would run into otherwise is the outcome \<open>Panic\<close>.
\<close>

definition evalStmt :: "env \<Rightarrow> string \<Rightarrow> session \<Rightarrow> error option \<times> session" where
  "evalStmt env inp s =
     (case ParseFile env (stmtSource inp) of
        Inl msg \<Rightarrow> (Some (ParseError msg), s)
      | Inr decls \<Rightarrow>
          (case funcBody ''F'' decls of
             Some (Block stmts) \<Rightarrow> (None, appendStatements (stmts @ printLastValues stmts) s)
           | Some MainBlock \<Rightarrow> (Some Panic, s)
           | None \<Rightarrow> (Some Panic, s)))"

text \<open>The loop of \<open>evalFunc\<close>: cut out the first function of that name, then stop.\<close>

fun removeFunc :: "string \<Rightarrow> decl list \<Rightarrow> decl list" where
  "removeFunc name [] = []"
| "removeFunc name (FuncDecl n b # ds) =
     (if n = name then ds else FuncDecl n b # removeFunc name ds)"
| "removeFunc name (GenDecl g # ds) = GenDecl g # removeFunc name ds"

definition funcSource :: "string \<Rightarrow> string" where
  "funcSource inp = ''package P; '' @ inp"

definition evalFunc :: "env \<Rightarrow> string \<Rightarrow> session \<Rightarrow> error option \<times> session" where
  "evalFunc env inp s =
     (case ParseFile env (funcSource inp) of
        Inl msg \<Rightarrow> (Some (ParseError msg), s)
      | Inr decls \<Rightarrow>
          (if length decls \<noteq> 1 then (Some EvalFuncError, s)
           else (case hd decls of
                   GenDecl g \<Rightarrow> (Some EvalFuncError, s)
                 | FuncDecl name body \<Rightarrow>
                     (None, s\<lparr>file' := (file' s)\<lparr>Decls :=
                        removeFunc name (Decls (file' s)) @ [FuncDecl name body]\<rparr>\<rparr>))))"

fun scanTokens :: "(token \<times> string) list \<Rightarrow> error option" where
  "scanTokens [] = None"
| "scanTokens ((tok, lit) # rest) =
     (if tok = EOF then None
      else if tok = ILLEGAL then Some (InvalidToken lit)
      else scanTokens rest)"

definition parseTokens :: "env \<Rightarrow> string \<Rightarrow> error option" where
  "parseTokens env inp = scanTokens (Scan env inp)"

section \<open>Strings\<close>

text \<open>
  A Go string is a sequence of bytes, here a \<open>string\<close> of HOL. \<open>strings.TrimSpace\<close>,
  \<open>strings.Fields\<close> and \<open>strings.TrimLeftFunc\<close> read it as UTF-8, rune by rune, and ask
  \<open>unicode.IsSpace\<close> of each rune; a byte that starts no valid encoding is the rune
  \<open>RuneError\<close> of width 1. Runes are code points, as natural numbers.
\<close>

definition RuneError :: nat where
  "RuneError = 0xFFFD"

text \<open>\<open>unicode.IsSpace\<close>: the Latin-1 spaces and the property \<open>White_Space\<close> beyond them.\<close>

definition isSpace :: "nat \<Rightarrow> bool" where
  "isSpace r =
     (r = 0x09 \<or> r = 0x0A \<or> r = 0x0B \<or> r = 0x0C \<or> r = 0x0D \<or> r = 0x20
      \<or> r = 0x85 \<or> r = 0xA0 \<or> r = 0x1680 \<or> (0x2000 \<le> r \<and> r \<le> 0x200A)
      \<or> r = 0x2028 \<or> r = 0x2029 \<or> r = 0x202F \<or> r = 0x205F \<or> r = 0x3000)"

definition byte :: "string \<Rightarrow> nat \<Rightarrow> nat" where
  "byte s i = of_char (s ! i)"

text \<open>
  The table \<open>first\<close> of \<open>unicode/utf8\<close>: the number of bytes that a first byte announces
  (1 for ASCII, 0 for a byte that starts no encoding).
\<close>

definition firstSize :: "nat \<Rightarrow> nat" where
  "firstSize b =
     (if b < 0x80 then 1 else if b < 0xC2 then 0 else if b < 0xE0 then 2
      else if b < 0xF0 then 3 else if b < 0xF5 then 4 else 0)"

text \<open>The table \<open>acceptRanges\<close>: the range of the second byte, by the first.\<close>

definition acceptLo :: "nat \<Rightarrow> nat" where
  "acceptLo b = (if b = 0xE0 then 0xA0 else if b = 0xF0 then 0x90 else 0x80)"

definition acceptHi :: "nat \<Rightarrow> nat" where
  "acceptHi b = (if b = 0xED then 0x9F else if b = 0xF4 then 0x8F else 0xBF)"

text \<open>\<open>utf8.DecodeRuneInString\<close>: the first rune of the string and its width in bytes.\<close>

definition DecodeRune :: "string \<Rightarrow> nat \<times> nat" where
  "DecodeRune s =
     (let n = length s in
      if n < 1 then (RuneError, 0)
      else
        (let s0 = byte s 0; sz = firstSize s0 in
         if sz = 1 then (s0, 1)
         else if sz = 0 then (RuneError, 1)
         else if n < sz then (RuneError, 1)
         else if byte s 1 < acceptLo s0 \<or> acceptHi s0 < byte s 1 then (RuneError, 1)
         else if sz \<le> 2 then ((s0 mod 32) * 64 + byte s 1 mod 64, 2)
         else if byte s 2 < 0x80 \<or> 0xBF < byte s 2 then (RuneError, 1)
         else if sz \<le> 3 then
           ((s0 mod 16) * 4096 + (byte s 1 mod 64) * 64 + byte s 2 mod 64, 3)
         else if byte s 3 < 0x80 \<or> 0xBF < byte s 3 then (RuneError, 1)
         else ((s0 mod 8) * 262144 + (byte s 1 mod 64) * 4096
                 + (byte s 2 mod 64) * 64 + byte s 3 mod 64, 4)))"

text \<open>\<open>utf8.RuneStart\<close>, and the loop of \<open>utf8.DecodeLastRuneInString\<close> that steps back to one.\<close>

definition RuneStart :: "nat \<Rightarrow> bool" where
  "RuneStart b = (b < 0x80 \<or> 0xC0 \<le> b)"

function backToStart :: "string \<Rightarrow> nat \<Rightarrow> int \<Rightarrow> int" where
  "backToStart s lim start =
     (if int lim \<le> start
      then (if RuneStart (byte s (nat start)) then start else backToStart s lim (start - 1))
      else start)"
  by pat_completeness auto
termination
  by (relation "measure (\<lambda>(s, lim, start). nat (start + 1))") auto

declare backToStart.simps [simp del]

text \<open>\<open>utf8.DecodeLastRuneInString\<close>: the last rune of the string and its width.\<close>

definition DecodeLastRune :: "string \<Rightarrow> nat \<times> nat" where
  "DecodeLastRune s =
     (let n = length s in
      if n = 0 then (RuneError, 0)
      else if byte s (n - 1) < 0x80 then (byte s (n - 1), 1)
      else
        (let lim = n - 4;
             start = backToStart s lim (int n - 2);
             start = (if start < 0 then 0 else nat start);
             (r, wid) = DecodeRune (drop start s)
         in if start + wid \<noteq> n then (RuneError, 1) else (r, wid)))"

lemma firstSize_le: "firstSize b \<le> 4"
  by (simp add: firstSize_def)

lemma firstSize_ascii: "firstSize b = 1 \<longleftrightarrow> b < 0x80"
  by (simp add: firstSize_def)

lemma acceptLo_ge: "0x80 \<le> acceptLo b"
  by (simp add: acceptLo_def)

lemma DecodeRune_size: "s \<noteq> [] \<Longrightarrow> 1 \<le> snd (DecodeRune s) \<and> snd (DecodeRune s) \<le> length s"
proof -
  assume "s \<noteq> []"
  then have len: "1 \<le> length s" by (cases s) simp_all
  from firstSize_le [of "byte s 0"] len show ?thesis
    by (auto simp: DecodeRune_def Let_def)
qed

lemma DecodeRune_ascii_byte:
  assumes "DecodeRune s = (r, n)" and "i < n" and "byte s i < 0x80"
  shows "r = byte s i \<and> n = 1"
proof -
  let ?s0 = "byte s 0"
  let ?sz = "firstSize ?s0"
  from assms(1,2) have ne: "\<not> length s < 1"
    by (auto simp: DecodeRune_def)
  show ?thesis
  proof (cases "?sz = 1")
    case True
    with ne assms(1) have "r = ?s0" and "n = 1"
      by (simp_all add: DecodeRune_def Let_def)
    with assms(2) show ?thesis by simp
  next
    case False
    then have high: "0x80 \<le> ?s0"
      using firstSize_ascii [of ?s0] by simp
    have small: "n \<le> 4"
      using assms(1) ne False by (auto simp: DecodeRune_def Let_def split: if_splits)
    have b1: "0x80 \<le> byte s 1" if "2 \<le> n"
      using that assms(1) ne False acceptLo_ge [of ?s0]
      by (auto simp: DecodeRune_def Let_def split: if_splits)
    have b2: "0x80 \<le> byte s 2" if "3 \<le> n"
      using that assms(1) ne False
      by (auto simp: DecodeRune_def Let_def split: if_splits)
    have b3: "0x80 \<le> byte s 3" if "4 \<le> n"
      using that assms(1) ne False
      by (auto simp: DecodeRune_def Let_def split: if_splits)
    have "i = 0 \<or> i = 1 \<or> i = 2 \<or> i = 3"
      using assms(2) small by arith
    with assms(2,3) high b1 b2 b3 show ?thesis
      by auto
  qed
qed

lemma backToStart_le: "backToStart s lim start \<le> start"
  by (induction s lim start rule: backToStart.induct) (subst backToStart.simps, auto)

lemma DecodeLastRune_size:
  "s \<noteq> [] \<Longrightarrow> 1 \<le> snd (DecodeLastRune s) \<and> snd (DecodeLastRune s) \<le> length s"
proof -
  assume ne: "s \<noteq> []"
  let ?start = "backToStart s (length s - 4) (int (length s) - 2)"
  let ?st = "if ?start < 0 then 0 else nat ?start"
  have "?st < length s"
    using backToStart_le [of s "length s - 4" "int (length s) - 2"] ne
    by (cases s) auto
  then have "drop ?st s \<noteq> []" by simp
  from DecodeRune_size [OF this] ne have "1 \<le> length s"
    by (cases s) simp_all
  with DecodeRune_size [OF \<open>drop ?st s \<noteq> []\<close>] show ?thesis
    by (auto simp: DecodeLastRune_def Let_def split: prod.splits)
qed

text \<open>
  \<open>for i, r := range s\<close>: the runes of the string from the left, each with its bytes.
\<close>

function runes :: "string \<Rightarrow> (nat \<times> string) list" where
  "runes s =
     (if s = [] then []
      else (let (r, n) = DecodeRune s in (r, take n s) # runes (drop n s)))"
  by pat_completeness auto
termination
proof (relation "measure length")
  show "wf (measure length)" by simp
next
  fix s :: string and x r n
  assume "s \<noteq> []" and "x = DecodeRune s" and "(r, n) = x"
  then show "(drop n s, s) \<in> measure length"
    using DecodeRune_size [of s] by (cases s) (auto simp: prod_eq_iff)
qed

declare runes.simps [simp del]

text \<open>
  \<open>lastIndexFunc\<close> of package \<open>strings\<close>: the index of the last rune, decoding from the
  right, on which \<open>f\<close> answers \<open>truth\<close>; -1 when there is none. Each round works on the
  string up to the rune before.
\<close>

function lastIndexFunc :: "string \<Rightarrow> (nat \<Rightarrow> bool) \<Rightarrow> bool \<Rightarrow> int" where
  "lastIndexFunc s f truth =
     (if s = [] then - 1
      else (let (r, wid) = DecodeLastRune s;
                i = length s - wid
            in if f r = truth then int i else lastIndexFunc (take i s) f truth))"
  by pat_completeness auto
termination
proof (relation "measure (\<lambda>(s, f, truth). length s)")
  show "wf (measure (\<lambda>(s, f, truth). length s))" by simp
next
  fix s :: string and f :: "nat \<Rightarrow> bool" and truth x r wid i
  assume "s \<noteq> []" and "x = DecodeLastRune s" and "(r, wid) = x" and "i = length s - wid"
  then show "((take i s, f, truth), s, f, truth) \<in> measure (\<lambda>(s, f, truth). length s)"
    using DecodeLastRune_size [of s] by (cases s) (auto simp: prod_eq_iff)
qed

declare lastIndexFunc.simps [simp del]

text \<open>
  \<open>strings.TrimLeftFunc\<close> returns the string from the first rune on which \<open>f\<close> fails.
  \<open>strings.TrimRightFunc\<close> cuts behind the last such rune, whose width it reads from the
  left. \<open>strings.TrimSpace\<close> is both with \<open>unicode.IsSpace\<close> (its loops over ASCII bytes
  are a shortcut to the same result).
\<close>

definition TrimLeftFunc :: "string \<Rightarrow> (nat \<Rightarrow> bool) \<Rightarrow> string" where
  "TrimLeftFunc s f = concat (map snd (dropWhile (\<lambda>(r, bs). f r) (runes s)))"

definition TrimRightFunc :: "string \<Rightarrow> (nat \<Rightarrow> bool) \<Rightarrow> string" where
  "TrimRightFunc s f =
     (let i = lastIndexFunc s f False in
      if 0 \<le> i \<and> 0x80 \<le> byte s (nat i)
      then take (nat i + snd (DecodeRune (drop (nat i) s))) s
      else take (nat (i + 1)) s)"

definition TrimSpace :: "string \<Rightarrow> string" where
  "TrimSpace s = TrimRightFunc (TrimLeftFunc s isSpace) isSpace"

text \<open>
  \<open>strings.Fields\<close> (\<open>FieldsFunc\<close> with \<open>unicode.IsSpace\<close>): the maximal runs of runes that
  are not spaces; \<open>cur\<close> holds the bytes of the run read so far.
\<close>

fun fieldsFrom :: "string \<Rightarrow> (nat \<times> string) list \<Rightarrow> string list" where
  "fieldsFrom cur [] = (if cur = [] then [] else [cur])"
| "fieldsFrom cur ((r, bs) # rest) =
     (if isSpace r then (if cur = [] then fieldsFrom [] rest else cur # fieldsFrom [] rest)
      else fieldsFrom (cur @ bs) rest)"

definition Fields :: "string \<Rightarrow> string list" where
  "Fields s = fieldsFrom [] (runes s)"

text \<open>
  \<open>strings.Trim\<close> with a cutset of ASCII characters, \<open>strings.HasPrefix\<close> and
  \<open>strings.TrimPrefix\<close> work on the bytes.
\<close>

definition Trim :: "string \<Rightarrow> string \<Rightarrow> string" where
  "Trim s cutset =
     rev (dropWhile (\<lambda>c. c \<in> set cutset) (rev (dropWhile (\<lambda>c. c \<in> set cutset) s)))"

definition HasPrefix :: "string \<Rightarrow> string \<Rightarrow> bool" where
  "HasPrefix s p = (take (length p) s = p)"

definition TrimPrefix :: "string \<Rightarrow> string \<Rightarrow> string" where
  "TrimPrefix s p = (if HasPrefix s p then drop (length p) s else s)"

subsection \<open>Facts on trimming and on fields\<close>

lemma byte_Cons_0: "byte (c # cs) 0 = of_char c"
  by (simp add: byte_def)

lemma DecodeRune_ascii: "(of_char c :: nat) < 0x80 \<Longrightarrow> DecodeRune (c # cs) = (of_char c, 1)"
  by (simp add: DecodeRune_def Let_def byte_Cons_0 firstSize_def)

lemma runes_ascii:
  "(of_char c :: nat) < 0x80 \<Longrightarrow> runes (c # cs) = (of_char c, [c]) # runes cs"
  by (subst runes.simps) (simp add: DecodeRune_ascii)

lemma concat_runes: "concat (map snd (runes s)) = s"
proof (induction s rule: runes.induct)
  case (1 s)
  show ?case
  proof (cases "s = []")
    case True
    then show ?thesis by (subst runes.simps) simp
  next
    case False
    obtain r n where d: "DecodeRune s = (r, n)" by (cases "DecodeRune s")
    from 1 [OF False d [symmetric] refl] have "concat (map snd (runes (drop n s))) = drop n s" .
    with False d show ?thesis
      by (subst runes.simps) simp
  qed
qed

lemma TrimLeftFunc_keep:
  "(of_char c :: nat) < 0x80 \<Longrightarrow> \<not> f (of_char c) \<Longrightarrow> TrimLeftFunc (c # cs) f = c # cs"
  using concat_runes [of cs] by (simp add: TrimLeftFunc_def runes_ascii)

lemma lastIndexFunc_less: "lastIndexFunc s f truth < int (length s)"
proof (induction s f truth rule: lastIndexFunc.induct)
  case (1 s f truth)
  show ?case
  proof (cases "s = []")
    case True
    then show ?thesis by (subst lastIndexFunc.simps) simp
  next
    case False
    obtain r wid where d: "DecodeLastRune s = (r, wid)" by (cases "DecodeLastRune s")
    from DecodeLastRune_size [OF False] d have wid: "1 \<le> wid" "wid \<le> length s"
      by simp_all
    show ?thesis
    proof (cases "f r = truth")
      case True
      with False d wid show ?thesis
        by (subst lastIndexFunc.simps) simp
    next
      case neq: False
      from 1 [OF False d [symmetric] refl refl neq]
      have "lastIndexFunc (take (length s - wid) s) f truth
          < int (length (take (length s - wid) s))" .
      with False d wid neq show ?thesis
        by (subst lastIndexFunc.simps) simp
    qed
  qed
qed

lemma DecodeLastRune_whole:
  assumes "DecodeLastRune (c # cs) = (r, wid)" and "(of_char c :: nat) < 0x80"
    and "wid = length (c # cs)"
  shows "r = of_char c"
proof (cases "cs = []")
  case True
  with assms show ?thesis
    by (simp add: DecodeLastRune_def byte_def)
next
  case False
  let ?s = "c # cs"
  let ?start = "backToStart ?s (length ?s - 4) (int (length ?s) - 2)"
  let ?st = "if ?start < 0 then 0 else nat ?start"
  from False have long: "2 \<le> length ?s" by (cases cs) simp_all
  obtain r' n where d: "DecodeRune (drop ?st ?s) = (r', n)"
    by (cases "DecodeRune (drop ?st ?s)")
  from assms(1,3) long have high: "\<not> byte ?s (length ?s - 1) < 0x80"
    by (auto simp: DecodeLastRune_def Let_def split: if_splits)
  with assms(1,3) long d have whole: "?st + n = length ?s" and r: "r = r'" and n: "n = wid"
    by (auto simp: DecodeLastRune_def Let_def split: if_splits)
  from whole n assms(3) have "?st = 0" by simp
  with d have "DecodeRune ?s = (r', n)" by simp
  from DecodeRune_ascii_byte [OF this, of 0] assms(2) n assms(3) long show ?thesis
    by (simp add: byte_Cons_0)
qed

lemma lastIndexFunc_found:
  "s = c # cs \<Longrightarrow> (of_char c :: nat) < 0x80 \<Longrightarrow> f (of_char c) = truth \<Longrightarrow>
   0 \<le> lastIndexFunc s f truth"
proof (induction s f truth arbitrary: cs rule: lastIndexFunc.induct)
  case (1 s f truth)
  from "1.prems"(1) have ne: "s \<noteq> []" by simp
  obtain r wid where d: "DecodeLastRune s = (r, wid)" by (cases "DecodeLastRune s")
  from DecodeLastRune_size [OF ne] d have wid: "1 \<le> wid" "wid \<le> length s"
    by simp_all
  show ?case
  proof (cases "f r = truth")
    case True
    with ne d show ?thesis
      by (subst lastIndexFunc.simps) simp
  next
    case False
    have "wid \<noteq> length s"
    proof
      assume "wid = length s"
      with DecodeLastRune_whole [of c cs r wid] d "1.prems" have "r = of_char c"
        by simp
      with False "1.prems"(3) show False by simp
    qed
    with wid have "0 < length s - wid" by simp
    then obtain cs' where "take (length s - wid) s = c # cs'"
      using "1.prems"(1) by (cases "length s - wid") simp_all
    from 1(1) [OF ne d [symmetric] refl refl False this "1.prems"(2,3)]
    have "0 \<le> lastIndexFunc (take (length s - wid) s) f truth" .
    with ne d False show ?thesis
      by (subst lastIndexFunc.simps) simp
  qed
qed

lemma TrimRightFunc_keep:
  assumes "(of_char c :: nat) < 0x80" and "\<not> f (of_char c)"
  shows "\<exists>k. 1 \<le> k \<and> TrimRightFunc (c # cs) f = take k (c # cs)"
proof -
  let ?s = "c # cs"
  let ?i = "lastIndexFunc ?s f False"
  from lastIndexFunc_found [OF refl assms(1), of f False cs] assms(2)
  have found: "0 \<le> ?i" by simp
  show ?thesis
  proof (cases "0x80 \<le> byte ?s (nat ?i)")
    case True
    from lastIndexFunc_less [of ?s f False] found have "drop (nat ?i) ?s \<noteq> []"
      by simp
    from DecodeRune_size [OF this] have "1 \<le> nat ?i + snd (DecodeRune (drop (nat ?i) ?s))"
      by simp
    with True found show ?thesis
      by (auto simp: TrimRightFunc_def Let_def)
  next
    case False
    with found have "TrimRightFunc ?s f = take (nat (?i + 1)) ?s"
      by (simp add: TrimRightFunc_def Let_def)
    moreover from found have "1 \<le> nat (?i + 1)" by simp
    ultimately show ?thesis by blast
  qed
qed

lemma HasPrefix_TrimSpace:
  assumes "(of_char c :: nat) < 0x80" and "\<not> isSpace (of_char c)"
  shows "HasPrefix (TrimSpace (c # cs)) [d] \<longleftrightarrow> c = d"
proof -
  from TrimRightFunc_keep [of c isSpace cs] assms obtain k where
    "1 \<le> k" and "TrimRightFunc (c # cs) isSpace = take k (c # cs)" by blast
  then show ?thesis
    using TrimLeftFunc_keep [of c isSpace cs] assms
    by (cases k) (simp_all add: TrimSpace_def HasPrefix_def)
qed

lemma not_command:
  "(of_char c :: nat) < 0x80 \<Longrightarrow> \<not> isSpace (of_char c) \<Longrightarrow> c \<noteq> CHR '':'' \<Longrightarrow>
   \<not> HasPrefix (TrimSpace (c # cs)) '':''"
  using HasPrefix_TrimSpace [of c cs "CHR '':''"] by simp

text \<open>
  A no-break space (U+00A0, the bytes C2 A0) before the colon is trimmed as a blank is:
  the input is a command.
\<close>

lemma TrimSpace_nbsp_quit: "HasPrefix (TrimSpace ([CHR 0xC2, CHR 0xA0] @ '':quit'')) '':''"
proof -
  have "DecodeRune ([CHR 0xC2, CHR 0xA0] @ '':quit'') = (0xA0, 2)"
    by (simp add: DecodeRune_def Let_def byte_def firstSize_def acceptLo_def acceptHi_def)
  then have "runes ([CHR 0xC2, CHR 0xA0] @ '':quit'') = (0xA0, [CHR 0xC2, CHR 0xA0]) # runes '':quit''"
    by (subst runes.simps) simp
  then have "TrimLeftFunc ([CHR 0xC2, CHR 0xA0] @ '':quit'') isSpace = TrimLeftFunc '':quit'' isSpace"
    by (simp add: TrimLeftFunc_def isSpace_def)
  then have "TrimSpace ([CHR 0xC2, CHR 0xA0] @ '':quit'') = TrimSpace '':quit''"
    by (simp add: TrimSpace_def)
  then show ?thesis
    using HasPrefix_TrimSpace [of "CHR '':''" "''quit''" "CHR '':''"]
    by (simp add: isSpace_def)
qed

lemma runes_no_blank:
  "(r, bs) \<in> set (runes s) \<Longrightarrow> \<not> isSpace r \<Longrightarrow> CHR '' '' \<notin> set bs"
proof (induction s rule: runes.induct)
  case (1 s)
  show ?case
  proof (cases "s = []")
    case True
    with "1.prems" show ?thesis by (simp add: runes.simps)
  next
    case False
    obtain r0 n where d: "DecodeRune s = (r0, n)" by (cases "DecodeRune s")
    from "1.prems"(1) False d have "(r, bs) = (r0, take n s) \<or> (r, bs) \<in> set (runes (drop n s))"
      by (subst (asm) runes.simps) simp
    then show ?thesis
    proof
      assume "(r, bs) \<in> set (runes (drop n s))"
      from 1(1) [OF False d [symmetric] refl this "1.prems"(2)] show ?thesis .
    next
      assume eq: "(r, bs) = (r0, take n s)"
      show ?thesis
      proof
        assume "CHR '' '' \<in> set bs"
        with eq obtain i where i: "i < n" "i < length s" "s ! i = CHR '' ''"
          by (auto simp: in_set_conv_nth)
        then have "byte s i < 0x80" by (simp add: byte_def)
        from DecodeRune_ascii_byte [OF d i(1) this] i(3) eq have "r = 0x20"
          by (simp add: byte_def)
        with "1.prems"(2) show False by (simp add: isSpace_def)
      qed
    qed
  qed
qed

lemma fieldsFrom_no_blank:
  "v \<in> set (fieldsFrom cur segs) \<Longrightarrow> CHR '' '' \<notin> set cur \<Longrightarrow>
   (\<And>r bs. (r, bs) \<in> set segs \<Longrightarrow> \<not> isSpace r \<Longrightarrow> CHR '' '' \<notin> set bs) \<Longrightarrow>
   CHR '' '' \<notin> set v"
proof (induction cur segs rule: fieldsFrom.induct)
  case (1 cur)
  then show ?case by (simp split: if_splits)
next
  case (2 cur r bs rest)
  show ?case
  proof (cases "isSpace r")
    case True
    with 2 show ?thesis by (auto split: if_splits)
  next
    case False
    with "2.prems" have "CHR '' '' \<notin> set (cur @ bs)" by auto
    with 2 False show ?thesis by auto
  qed
qed

lemma Fields_no_blank: "v \<in> set (Fields s) \<Longrightarrow> CHR '' '' \<notin> set v"
  using fieldsFrom_no_blank [of v "[]" "runes s"] runes_no_blank [of _ _ s]
  by (auto simp: Fields_def)





section \<open>The import command\<close>

text \<open>
  Modelled from the spec: \<open>astutil.AddImport\<close> (golang.org/x/tools) is called by
  \<open>actionImport\<close> and is not in these files. The specification has it "insert the import
  into Program's import list if not already present (dedup by path)"; where the new path
  goes is the library's choice, and it is put last here.
\<close>

definition AddImport :: "string \<Rightarrow> session \<Rightarrow> session" where
  "AddImport path s =
     (if path \<in> set (Imports (file' s)) then s
      else s\<lparr>file' := (file' s)\<lparr>Imports := Imports (file' s) @ [path]\<rparr>\<rparr>)"

text \<open>
  \<open>actionImport\<close> calls itself on every field of an argument that holds a blank. A field
  holds none, so the recursion is one level deep; \<open>importCost\<close> is what is left to do.
\<close>

definition importCost :: "string \<Rightarrow> nat" where
  "importCost arg = (if CHR '' '' \<in> set arg then length (Fields arg) + 1 else 0)"

lemma importCost_blank: "CHR '' '' \<in> set arg \<Longrightarrow> importCost arg = length (Fields arg) + 1"
  by (simp add: importCost_def)

lemma importCost_Fields:
  "sum_list (map (\<lambda>v. Suc (importCost v)) (Fields arg)) = length (Fields arg)"
proof -
  have "sum_list (map (\<lambda>v. Suc (importCost v)) vs) = length vs"
    if "\<And>v. v \<in> set vs \<Longrightarrow> CHR '' '' \<notin> set v" for vs
    using that by (induction vs) (simp_all add: importCost_def)
  then show ?thesis using Fields_no_blank by blast
qed

function actionImport :: "env \<Rightarrow> session \<Rightarrow> string \<Rightarrow> error option \<times> session"
  and importFields :: "env \<Rightarrow> session \<Rightarrow> string list \<Rightarrow> error option \<times> session" where
  "actionImport env s arg =
     (if arg = [] then (Some ArgumentRequired, s)
      else if CHR '' '' \<in> set arg then importFields env s (Fields arg)
      else (let path = Trim arg [CHR 0x22] in
            case Import env path of
              Some msg \<Rightarrow> (Some (ImportError msg), s)
            | None \<Rightarrow> (None, AddImport path s)))"
| "importFields env s [] = (None, s)"
| "importFields env s (v # vs) =
     (if v = [] then importFields env s vs
      else (case actionImport env s v of
              (Some err, s') \<Rightarrow> (Some err, s')
            | (None, s') \<Rightarrow> importFields env s' vs))"
  by pat_completeness auto
termination
proof (relation "measure (\<lambda>x. case x of
          Inl (env, s, arg) \<Rightarrow> importCost arg
        | Inr (env, s, vs) \<Rightarrow> sum_list (map (\<lambda>v. importCost v + 1) vs))")
  show "wf (measure (\<lambda>x. case x of
          Inl (env, s, arg) \<Rightarrow> importCost arg
        | Inr (env, s, vs) \<Rightarrow> sum_list (map (\<lambda>v. importCost v + 1) vs)))"
    by simp
qed (simp_all add: importCost_Fields importCost_blank)

declare actionImport.simps [simp del]

section \<open>The type command\<close>

text \<open>
  \<open>defer s.restoreCode()\<close> runs on every return that follows it. \<open>s.typeInfo\<close> is written
  and read within the call only, so it is local here.
\<close>

definition actionType :: "env \<Rightarrow> session \<Rightarrow> string \<Rightarrow> error option \<times> session" where
  "actionType env s0 inp =
     (if inp = [] then (Some ArgumentRequired, s0)
      else
        (let s = storeCode (clearQuickFix env s0) in
         case evalExpr env inp s of
           (Inl err, s1) \<Rightarrow> (Some err, restoreCode s1)
         | (Inr e, s1) \<Rightarrow>
             (case TypeOf env (program s1) e of
                None \<Rightarrow> (Some (CannotGetType e), restoreCode s1)
              | Some InvalidType \<Rightarrow> (Some (CannotGetType e), restoreCode s1)
              | Some (Type t) \<Rightarrow> (None, restoreCode (s1\<lparr>stdout := stdout s1 @ [t]\<rparr>)))))"

section \<open>Command dispatch\<close>

definition commands :: "(string \<times> action) list" where
  "commands =
     [(''i[mport]'', ActionImport), (''t[ype]'', ActionType), (''print'', ActionPrint),
      (''w[rite]'', ActionWrite), (''clear'', ActionClear), (''d[oc]'', ActionDoc),
      (''h[elp]'', ActionHelp), (''q[uit]'', ActionQuit), (''e[dit]'', ActionEdit),
      (''r[un]'', ActionRun)]"

definition runAction :: "env \<Rightarrow> action \<Rightarrow> session \<Rightarrow> string \<Rightarrow> error option \<times> session" where
  "runAction env a s arg =
     (case a of
        ActionImport \<Rightarrow> actionImport env s arg
      | ActionType \<Rightarrow> actionType env s arg
      | ActionQuit \<Rightarrow> (Some ErrQuit, s)
      | ActionRun \<Rightarrow> (Run env s, s)
      | ActionPrint \<Rightarrow> otherAction env a arg s
      | ActionWrite \<Rightarrow> otherAction env a arg s
      | ActionClear \<Rightarrow> otherAction env a arg s
      | ActionDoc \<Rightarrow> otherAction env a arg s
      | ActionHelp \<Rightarrow> otherAction env a arg s
      | ActionEdit \<Rightarrow> otherAction env a arg s)"

fun dispatch ::
  "env \<Rightarrow> string \<Rightarrow> string \<Rightarrow> (string \<times> action) list \<Rightarrow> session \<Rightarrow> error option \<times> session"
where
  "dispatch env cmd arg [] s = (Some (CommandNotFound cmd), s)"
| "dispatch env cmd arg ((name, a) # rest) s =
     (if \<not> matches env name cmd then dispatch env cmd arg rest s
      else (case runAction env a s arg of
              (None, s') \<Rightarrow> (None, s')
            | (Some err, s') \<Rightarrow>
                (if err = ErrQuit then (Some ErrQuit, s')
                 else (Some (CommandError name err), s'))))"

definition invokeCommand :: "env \<Rightarrow> string \<Rightarrow> session \<Rightarrow> error option \<times> session" where
  "invokeCommand env inp0 s =
     (let inp = TrimLeftFunc inp0 (\<lambda>c. c = 0x3A \<or> isSpace c);
          tokens = Fields inp
      in if length tokens = 0 then (None, s)
         else (let cmd = hd tokens;
                   arg = TrimSpace (TrimPrefix inp cmd)
               in dispatch env cmd arg commands s))"

section \<open>Eval\<close>

text \<open>The attempts of \<open>Eval\<close> on an input that is not a command, in the order it makes them.\<close>

definition evalInput :: "env \<Rightarrow> string \<Rightarrow> session \<Rightarrow> error option \<times> session" where
  "evalInput env inp s =
     (case evalExpr env inp s of
        (Inr e, s1) \<Rightarrow> (None, s1)
      | (Inl err1, s1) \<Rightarrow>
          (case evalStmt env inp s1 of
             (None, s2) \<Rightarrow> (None, s2)
           | (Some err2, s2) \<Rightarrow>
               (if err2 = Panic then (Some Panic, s2)
                else (case evalFunc env inp s2 of
                        (None, s3) \<Rightarrow> (None, s3)
                      | (Some err3, s3) \<Rightarrow>
                          (case parseTokens env inp of
                             Some err \<Rightarrow> (Some err, s3\<lparr>stderr := stderr s3 @ [err]\<rparr>)
                           | None \<Rightarrow> (Some ErrContinue, s3))))))"

text \<open>What \<open>Eval\<close> does once the input is spliced in: fix, run, and roll back on status 2.\<close>

definition runInput :: "env \<Rightarrow> session \<Rightarrow> error option \<times> session" where
  "runInput env s =
     (let s1 = (if autoImport s then snd (fixImports env s) else s);
          s2 = doQuickFix env s1
      in case Run env s2 of
           None \<Rightarrow> (None, s2)
         | Some err \<Rightarrow>
             (Some ErrCmdRun,
              (case err of
                 ExitError st \<Rightarrow> (if st = 2 then restoreCode s2 else s2)
               | _ \<Rightarrow> s2)))"

definition Eval :: "env \<Rightarrow> string \<Rightarrow> session \<Rightarrow> error option \<times> session" where
  "Eval env inp s0 =
     (let s = storeCode (clearQuickFix env s0) in
      if HasPrefix (TrimSpace inp) '':'' then
        (case invokeCommand env inp s of
           (None, s') \<Rightarrow> (None, s')
         | (Some err, s') \<Rightarrow>
             (Some err, if err \<noteq> ErrQuit then s'\<lparr>stderr := stderr s' @ [err]\<rparr> else s'))
      else
        (case evalInput env inp s of
           (Some err, s') \<Rightarrow> (Some err, s')
         | (None, s') \<Rightarrow> runInput env s'))"

section \<open>The entry point of the program\<close>



section \<open>A session and a tool chain to run the engine on\<close>

text \<open>
  The session that \<open>init\<close> leaves when \<open>fmt\<close> is the pretty printer: the import, the print
  helper (its loop carried as text) and an empty entry point.
\<close>

definition initialSession :: session where
  "initialSession =
     \<lparr>file' = \<lparr>Imports = [''fmt''],
               Decls = [FuncDecl printerName (Block [OtherStmt ''for _, x := range xx { ... }'']),
                        FuncDecl ''main'' MainBlock]\<rparr>,
      mainBody = [], lastStmts = [], lastDecls = [],
      autoImport = False, stdout = [], stderr = []\<rparr>"

text \<open>
  A tool chain that knows a few inputs, as the Go tools answer on them. The outcome of the
  run is left open. Nothing is there for the quick-fix steps to change.
\<close>

definition importInput :: string where
  "importInput = ''import '' @ [CHR 0x22] @ ''fmt'' @ [CHR 0x22]"

definition exampleParseFile :: "string \<Rightarrow> string + decl list" where
  "exampleParseFile src =
     (if src = stmtSource ''x, _ := foo()'' then
        Inr [FuncDecl ''F'' (Block [AssignStmt [Ident ''x'', Ident ''_'']
                                               [CallExpr (Ident ''foo'') []]])]
      else if src = stmtSource ''_, _ := foo()'' then
        Inr [FuncDecl ''F'' (Block [AssignStmt [Ident ''_'', Ident ''_'']
                                               [CallExpr (Ident ''foo'') []]])]
      else if src = funcSource ''func f() int { return 1 }'' then
        Inr [FuncDecl ''f'' (Block [OtherStmt ''return 1''])]
      else if src = funcSource ''func f() int { return 2 }'' then
        Inr [FuncDecl ''f'' (Block [OtherStmt ''return 2''])]
      else if src = funcSource ''func g() {}'' then
        Inr [FuncDecl ''g'' (Block [])]
      else if src = funcSource importInput then
        Inr [GenDecl importInput]
      else if src = funcSource ''func main() { panic(1) }'' then
        Inr [FuncDecl ''main'' (Block [OtherStmt ''panic(1)''])]
      else Inl ''syntax error'')"

definition exampleScan :: "string \<Rightarrow> (token \<times> string) list" where
  "exampleScan inp =
     (if inp = ''if true {'' then
        [(OtherToken, ''if''), (OtherToken, ''true''), (OtherToken, []), (EOF, [])]
      else if inp = importInput then
        [(OtherToken, ''import''), (OtherToken, [CHR 0x22] @ ''fmt'' @ [CHR 0x22]),
         (OtherToken, [CHR 0x0A]), (EOF, [])]
      else if inp = ''#'' then [(ILLEGAL, ''#''), (EOF, [])]
      else [(EOF, [])])"

definition exampleEnv :: "error option \<Rightarrow> env" where
  "exampleEnv outcome =
     \<lparr>ParseExpr = (\<lambda>inp. if inp = ''1 + 1'' then Inr (OtherExpr ''1 + 1'')
                         else Inl ''syntax error''),
      ParseFile = exampleParseFile,
      Scan = exampleScan,
      Import = (\<lambda>path. if path = ''fmt'' \<or> path = ''os'' then None
                       else Some ''cannot find package''),
      TypeOf = (\<lambda>p e. if e = OtherExpr ''1 + 1'' then Some (Type ''int'') else None),
      goRun = (\<lambda>p. outcome),
      importsProcess = Inr,
      quickFixClear = (\<lambda>p. p),
      quickFixApply = (\<lambda>p. p),
      matches = (\<lambda>name cmd. False),
      otherAction = (\<lambda>a arg s. (None, s))\<rparr>"

text \<open>Three declarations in a row: \<open>f\<close>, then \<open>g\<close>, then \<open>f\<close> again with another body.\<close>

definition declaredFG :: session where
  "declaredFG =
     snd (evalFunc (exampleEnv None) ''func g() {}''
       (snd (evalFunc (exampleEnv None) ''func f() int { return 1 }'' initialSession)))"

definition redeclaredF :: session where
  "redeclaredF = snd (evalFunc (exampleEnv None) ''func f() int { return 2 }'' declaredFG)"


section \<open>Rollback: the loops against the rule\<close>

lemma lastVersion_find:
  "lastVersion name lds = (case checkpointVersion lds name of Some ld \<Rightarrow> [ld] | None \<Rightarrow> [])"
proof (induction lds)
  case Nil
  show ?case by (simp add: checkpointVersion_def)
next
  case (Cons ld lds)
  then show ?case by (cases ld) (simp_all add: checkpointVersion_def isFuncNamed_def)
qed

lemma restoreDecls_concat:
  "restoreDecls lds ds decls = decls @ concat (map (restore_spec lds) ds)"
proof (induction ds arbitrary: decls)
  case Nil
  show ?case by simp
next
  case (Cons d ds)
  show ?case
  proof (cases d)
    case (FuncDecl n b)
    then show ?thesis
      using Cons.IH by (simp add: restore_spec_def lastVersion_find)
  next
    case (GenDecl g)
    then show ?thesis
      using Cons.IH by (simp add: restore_spec_def)
  qed
qed

lemma lastVersion_cases:
  "lastVersion name lds = [] \<or> (\<exists>b. lastVersion name lds = [FuncDecl name b])"
  by (induction name lds rule: lastVersion.induct) auto


lemma lastVersion_None: "name \<notin> set (funcNames lds) \<Longrightarrow> lastVersion name lds = []"
  by (induction name lds rule: lastVersion.induct) auto

lemma restore_spec_fixed: "e \<in> set (restore_spec lds d) \<Longrightarrow> restore_spec lds e = [e]"
proof (cases d)
  case (GenDecl g)
  assume "e \<in> set (restore_spec lds d)"
  with GenDecl show ?thesis by (simp add: restore_spec_def)
next
  case (FuncDecl n b)
  assume e: "e \<in> set (restore_spec lds d)"
  show ?thesis
  proof (cases "n = ''main''")
    case True
    with e FuncDecl show ?thesis by (simp add: restore_spec_def)
  next
    case False
    with e FuncDecl have "e \<in> set (lastVersion n lds)"
      by (simp add: restore_spec_def lastVersion_find)
    with lastVersion_cases [of n lds] obtain b' where
      lv: "lastVersion n lds = [FuncDecl n b']" and e': "e = FuncDecl n b'"
      by auto
    from lv have "lastVersion n lds = [FuncDecl n b']" .
    with False e' show ?thesis
      by (simp add: restore_spec_def lastVersion_find [symmetric])
  qed
qed

lemma concat_restore_spec_idem:
  "concat (map (restore_spec lds) (concat (map (restore_spec lds) ds))) =
   concat (map (restore_spec lds) ds)"
proof -
  have fixed: "concat (map (restore_spec lds) es) = es"
    if "\<And>e. e \<in> set es \<Longrightarrow> restore_spec lds e = [e]" for es
    using that by (induction es) simp_all
  show ?thesis
    by (rule fixed) (auto dest: restore_spec_fixed)
qed

lemma lastVersion_self:
  "distinct (funcNames lds) \<Longrightarrow> FuncDecl n b \<in> set lds \<Longrightarrow> lastVersion n lds = [FuncDecl n b]"
proof (induction lds)
  case Nil
  then show ?case by simp
next
  case (Cons ld lds)
  have names: "FuncDecl n b \<in> set lds \<Longrightarrow> n \<in> set (funcNames lds)" for lds
    by (induction lds rule: funcNames.induct) auto
  show ?case
  proof (cases ld)
    case (GenDecl g)
    with Cons show ?thesis by simp
  next
    case (FuncDecl m c)
    with Cons names [of lds] show ?thesis by auto
  qed
qed

lemma restore_spec_self:
  "distinct (funcNames ds) \<Longrightarrow> d \<in> set ds \<Longrightarrow> restore_spec ds d = [d]"
  by (cases d) (simp_all add: restore_spec_def lastVersion_find [symmetric] lastVersion_self)

lemma restoreDecls_self:
  assumes "distinct (funcNames ds)"
  shows "restoreDecls ds ds [] = ds"
proof -
  have "concat (map (restore_spec ds) es) = es" if "set es \<subseteq> set ds" for es
    using that assms by (induction es) (simp_all add: restore_spec_self)
  then show ?thesis by (simp add: restoreDecls_concat)
qed






lemma Decls_restoreCode:
  "Decls (file' (restoreCode s)) = concat (map (restore_spec (lastDecls s)) (Decls (file' s)))"
  by (simp add: restoreCode_def restoreDecls_concat)






section \<open>Claims on the checkpoint manager\<close>




text \<open>
  C6. \<open>restoreCode\<close> twice is \<open>restoreCode\<close> once, for every session. And when nothing has
  changed since the checkpoint was taken (the body and the declarations are the
  checkpoint's) and no two functions of the program share a name, as the data model
  requires, \<open>restoreCode\<close> leaves the session as it is.
\<close>

theorem restoreCode_idempotent:
  "restoreCode (restoreCode s) = restoreCode s
   \<and> (mainBody s = lastStmts s \<and> Decls (file' s) = lastDecls s
        \<and> distinct (funcNames (Decls (file' s)))
      \<longrightarrow> restoreCode s = s)"
proof
  show "restoreCode (restoreCode s) = restoreCode s"
    by (simp add: restoreCode_def restoreDecls_concat concat_restore_spec_idem)
next
  show "mainBody s = lastStmts s \<and> Decls (file' s) = lastDecls s
        \<and> distinct (funcNames (Decls (file' s)))
      \<longrightarrow> restoreCode s = s"
  proof
    assume a: "mainBody s = lastStmts s \<and> Decls (file' s) = lastDecls s
        \<and> distinct (funcNames (Decls (file' s)))"
    then have "restoreDecls (Decls (file' s)) (Decls (file' s)) [] = Decls (file' s)"
      by (intro restoreDecls_self) blast
    with a have "restoreDecls (lastDecls s) (Decls (file' s)) [] = Decls (file' s)"
      by metis
    with a show "restoreCode s = s" by (simp add: restoreCode_def)
  qed
qed

theorem restoreCode_idempotent_witness:
  "mainBody (storeCode initialSession) = lastStmts (storeCode initialSession)
   \<and> Decls (file' (storeCode initialSession)) = lastDecls (storeCode initialSession)
   \<and> distinct (funcNames (Decls (file' (storeCode initialSession))))
   \<and> restoreCode (storeCode initialSession) = storeCode initialSession"
  using restoreCode_idempotent [of "storeCode initialSession"]
  by (simp add: storeCode_def initialSession_def printerName_def)

section \<open>Claims on the tree splicer\<close>

lemma printLastValues_assign:
  "stmts \<noteq> [] \<Longrightarrow> last stmts = AssignStmt lhs rhs \<Longrightarrow>
   printLastValues stmts =
     (if filter (\<lambda>v. \<not> isNamedIdent v ''_'') lhs = [] then []
      else [ExprStmt (CallExpr (Ident printerName) (filter (\<lambda>v. \<not> isNamedIdent v ''_'') lhs))])"
  by (simp add: printLastValues_def Let_def)

text \<open>
  C4. When the input parses as the body of \<open>F\<close> and the last of its statements is an
  assignment, \<open>evalStmt\<close> appends the parsed statements to the entry point, followed by one
  call of the print helper on the left-hand sides that are not the identifier \<open>_\<close>, in
  their order; when every left-hand side is \<open>_\<close> it appends the parsed statements and no
  call.
\<close>

theorem evalStmt_prints_assigned:
  assumes "ParseFile env (stmtSource inp) = Inr decls"
    and "funcBody ''F'' decls = Some (Block stmts)"
    and "stmts \<noteq> []"
    and "last stmts = AssignStmt lhs rhs"
  shows "evalStmt env inp s =
           (None, s\<lparr>mainBody := mainBody s @ stmts @
              (if filter (\<lambda>v. \<not> isNamedIdent v ''_'') lhs = [] then []
               else [ExprStmt (CallExpr (Ident printerName)
                       (filter (\<lambda>v. \<not> isNamedIdent v ''_'') lhs))])\<rparr>)
         \<and> (list_all (\<lambda>v. isNamedIdent v ''_'') lhs \<longrightarrow>
              evalStmt env inp s = (None, s\<lparr>mainBody := mainBody s @ stmts\<rparr>))"
proof -
  have first: "evalStmt env inp s =
           (None, s\<lparr>mainBody := mainBody s @ stmts @
              (if filter (\<lambda>v. \<not> isNamedIdent v ''_'') lhs = [] then []
               else [ExprStmt (CallExpr (Ident printerName)
                       (filter (\<lambda>v. \<not> isNamedIdent v ''_'') lhs))])\<rparr>)"
    using assms
    by (simp add: evalStmt_def appendStatements_def printLastValues_assign)
  have "filter (\<lambda>v. \<not> isNamedIdent v ''_'') lhs = []"
    if "list_all (\<lambda>v. isNamedIdent v ''_'') lhs"
    using that by (simp add: filter_empty_conv list_all_iff)
  with first show ?thesis
    by simp
qed

text \<open>\<open>x, _ := foo()\<close> is followed by a print of \<open>x\<close> alone; \<open>_, _ := foo()\<close> by nothing.\<close>

theorem evalStmt_prints_assigned_witness:
  "mainBody (snd (evalStmt (exampleEnv None) ''x, _ := foo()'' initialSession)) =
     [AssignStmt [Ident ''x'', Ident ''_''] [CallExpr (Ident ''foo'') []],
      ExprStmt (CallExpr (Ident ''__gore_p'') [Ident ''x''])]
   \<and> mainBody (snd (evalStmt (exampleEnv None) ''_, _ := foo()'' initialSession)) =
     [AssignStmt [Ident ''_'', Ident ''_''] [CallExpr (Ident ''foo'') []]]"
proof -
  have parse1: "ParseFile (exampleEnv None) (stmtSource ''x, _ := foo()'') =
      Inr [FuncDecl ''F'' (Block [AssignStmt [Ident ''x'', Ident ''_'']
                                             [CallExpr (Ident ''foo'') []]])]"
    by (simp add: exampleEnv_def exampleParseFile_def)
  have parse2: "ParseFile (exampleEnv None) (stmtSource ''_, _ := foo()'') =
      Inr [FuncDecl ''F'' (Block [AssignStmt [Ident ''_'', Ident ''_'']
                                             [CallExpr (Ident ''foo'') []]])]"
    by (simp add: exampleEnv_def exampleParseFile_def stmtSource_def)
  have body: "funcBody ''F'' [FuncDecl ''F'' (Block ss)] = Some (Block ss)" for ss
    by simp
  show ?thesis
    using evalStmt_prints_assigned [OF parse1 body, of "[Ident ''x'', Ident ''_'']"
        "[CallExpr (Ident ''foo'') []]" initialSession]
      evalStmt_prints_assigned [OF parse2 body, of "[Ident ''_'', Ident ''_'']"
        "[CallExpr (Ident ''foo'') []]" initialSession]
    by (simp add: initialSession_def printerName_def)
qed

lemma funcNames_append: "funcNames (xs @ ys) = funcNames xs @ funcNames ys"
  by (induction xs rule: funcNames.induct) simp_all

lemma funcNames_removeFunc: "funcNames (removeFunc f ds) = remove1 f (funcNames ds)"
  by (induction f ds rule: removeFunc.induct) simp_all

lemma removeFunc_absent: "f \<notin> set (funcNames ds) \<Longrightarrow> removeFunc f ds = ds"
  by (induction f ds rule: removeFunc.induct) auto

lemma removeFunc_first:
  "f \<notin> set (funcNames xs) \<Longrightarrow> removeFunc f (xs @ FuncDecl f b # ys) = xs @ ys"
  by (induction f xs rule: removeFunc.induct) auto

lemma count_remove1_self: "count_list (remove1 x xs) x = count_list xs x - 1"
  by (induction xs) auto

lemma removeFunc_clears:
  assumes "count_list (funcNames ds) f \<le> 1"
  shows "f \<notin> set (funcNames (removeFunc f ds))"
proof -
  have "count_list (funcNames (removeFunc f ds)) f = 0"
    using assms by (simp add: funcNames_removeFunc count_remove1_self)
  then show ?thesis by (simp add: count_list_0_iff)
qed

lemma filter_isFuncNamed_absent:
  "f \<notin> set (funcNames ds) \<Longrightarrow> filter (isFuncNamed f) ds = []"
  by (induction ds rule: funcNames.induct) (auto simp: isFuncNamed_def)

lemma evalFunc_Decls:
  "ParseFile env (funcSource inp) = Inr [FuncDecl f b] \<Longrightarrow>
   evalFunc env inp s =
     (None, s\<lparr>file' := (file' s)\<lparr>Decls := removeFunc f (Decls (file' s)) @ [FuncDecl f b]\<rparr>\<rparr>)"
  by (simp add: evalFunc_def)

text \<open>
  C3, as the code has it. When the program declares at most one function named \<open>f\<close>,
  declaring \<open>f\<close> and then declaring \<open>f\<close> again succeeds both times and leaves the
  declarations of before without \<open>f\<close>, in their order, followed by the second
  declaration: the old declaration is cut out of its place and the new one is appended.
  Exactly one declaration is named \<open>f\<close>, it has the latest body, and it is the last.
\<close>

theorem evalFunc_redefine:
  assumes "ParseFile env (funcSource in1) = Inr [FuncDecl f b1]"
    and "ParseFile env (funcSource in2) = Inr [FuncDecl f b2]"
    and "count_list (funcNames (Decls (file' s))) f \<le> 1"
  shows "fst (evalFunc env in1 s) = None
       \<and> fst (evalFunc env in2 (snd (evalFunc env in1 s))) = None
       \<and> Decls (file' (snd (evalFunc env in2 (snd (evalFunc env in1 s))))) =
           removeFunc f (Decls (file' s)) @ [FuncDecl f b2]
       \<and> filter (isFuncNamed f) (Decls (file' (snd (evalFunc env in2 (snd (evalFunc env in1 s)))))) =
           [FuncDecl f b2]
       \<and> count_list (funcNames (Decls (file' (snd (evalFunc env in2 (snd (evalFunc env in1 s))))))) f = 1
       \<and> last (Decls (file' (snd (evalFunc env in2 (snd (evalFunc env in1 s)))))) = FuncDecl f b2"
proof -
  let ?ds = "removeFunc f (Decls (file' s))"
  have absent: "f \<notin> set (funcNames ?ds)"
    using assms(3) by (rule removeFunc_clears)
  have one: "Decls (file' (snd (evalFunc env in1 s))) = ?ds @ [FuncDecl f b1]"
    by (simp add: evalFunc_Decls [OF assms(1)])
  have two: "Decls (file' (snd (evalFunc env in2 (snd (evalFunc env in1 s))))) =
      ?ds @ [FuncDecl f b2]"
    using absent by (simp add: evalFunc_Decls [OF assms(2)] one removeFunc_first)
  have only: "filter (isFuncNamed f) (?ds @ [FuncDecl f b2]) = [FuncDecl f b2]"
    using absent by (simp add: filter_isFuncNamed_absent isFuncNamed_def)
  have count: "count_list (funcNames (?ds @ [FuncDecl f b2])) f = 1"
    using absent by (simp add: funcNames_append count_list_0_iff)
  have ok1: "fst (evalFunc env in1 s) = None"
    by (simp add: evalFunc_Decls [OF assms(1)])
  have ok2: "fst (evalFunc env in2 (snd (evalFunc env in1 s))) = None"
    by (simp add: evalFunc_Decls [OF assms(2)])
  show ?thesis
    by (simp only: two only count ok1 ok2 last_snoc simp_thms)
qed

theorem evalFunc_redefine_witness:
  "count_list (funcNames (Decls (file' initialSession))) ''f'' \<le> 1
   \<and> Decls (file' (snd (evalFunc (exampleEnv None) ''func f() int { return 2 }''
        (snd (evalFunc (exampleEnv None) ''func f() int { return 1 }'' initialSession))))) =
     [FuncDecl ''__gore_p'' (Block [OtherStmt ''for _, x := range xx { ... }'']),
      FuncDecl ''main'' MainBlock,
      FuncDecl ''f'' (Block [OtherStmt ''return 2''])]"
proof -
  have parse1: "ParseFile (exampleEnv None) (funcSource ''func f() int { return 1 }'') =
      Inr [FuncDecl ''f'' (Block [OtherStmt ''return 1''])]"
    by (simp add: exampleEnv_def exampleParseFile_def stmtSource_def funcSource_def)
  have parse2: "ParseFile (exampleEnv None) (funcSource ''func f() int { return 2 }'') =
      Inr [FuncDecl ''f'' (Block [OtherStmt ''return 2''])]"
    by (simp add: exampleEnv_def exampleParseFile_def stmtSource_def funcSource_def)
  have few: "count_list (funcNames (Decls (file' initialSession))) ''f'' \<le> 1"
    by (simp add: initialSession_def printerName_def)
  show ?thesis
    using evalFunc_redefine [OF parse1 parse2 few] few
    by (simp add: initialSession_def printerName_def)
qed

text \<open>
  C3 as stated fails: with \<open>g\<close> declared in between, the second declaration of \<open>f\<close> does
  not take the place of the first (index 2 of the declarations); \<open>g\<close> moves there and the
  new \<open>f\<close> is appended behind it.
\<close>

theorem evalFunc_not_in_place:
  "Decls (file' declaredFG) =
     [FuncDecl ''__gore_p'' (Block [OtherStmt ''for _, x := range xx { ... }'']),
      FuncDecl ''main'' MainBlock,
      FuncDecl ''f'' (Block [OtherStmt ''return 1'']),
      FuncDecl ''g'' (Block [])]
   \<and> Decls (file' redeclaredF) =
     [FuncDecl ''__gore_p'' (Block [OtherStmt ''for _, x := range xx { ... }'']),
      FuncDecl ''main'' MainBlock,
      FuncDecl ''g'' (Block []),
      FuncDecl ''f'' (Block [OtherStmt ''return 2''])]
   \<and> Decls (file' redeclaredF) \<noteq>
       (Decls (file' declaredFG))[2 := FuncDecl ''f'' (Block [OtherStmt ''return 2''])]"
proof -
  have parse1: "ParseFile (exampleEnv None) (funcSource ''func f() int { return 1 }'') =
      Inr [FuncDecl ''f'' (Block [OtherStmt ''return 1''])]"
    by (simp add: exampleEnv_def exampleParseFile_def stmtSource_def funcSource_def)
  have parse2: "ParseFile (exampleEnv None) (funcSource ''func f() int { return 2 }'') =
      Inr [FuncDecl ''f'' (Block [OtherStmt ''return 2''])]"
    by (simp add: exampleEnv_def exampleParseFile_def stmtSource_def funcSource_def)
  have parse3: "ParseFile (exampleEnv None) (funcSource ''func g() {}'') =
      Inr [FuncDecl ''g'' (Block [])]"
    by (simp add: exampleEnv_def exampleParseFile_def stmtSource_def funcSource_def)
  have before: "Decls (file' declaredFG) =
     [FuncDecl ''__gore_p'' (Block [OtherStmt ''for _, x := range xx { ... }'']),
      FuncDecl ''main'' MainBlock,
      FuncDecl ''f'' (Block [OtherStmt ''return 1'']),
      FuncDecl ''g'' (Block [])]"
    by (simp add: declaredFG_def evalFunc_Decls [OF parse1] evalFunc_Decls [OF parse3]
        initialSession_def printerName_def)
  have after: "Decls (file' redeclaredF) =
     [FuncDecl ''__gore_p'' (Block [OtherStmt ''for _, x := range xx { ... }'']),
      FuncDecl ''main'' MainBlock,
      FuncDecl ''g'' (Block []),
      FuncDecl ''f'' (Block [OtherStmt ''return 2''])]"
    by (simp add: redeclaredF_def evalFunc_Decls [OF parse2] before)
  show ?thesis
    by (simp add: before after)
qed

section \<open>Claims on the input classifier\<close>

lemma evalStmt_parse_error:
  "ParseFile env (stmtSource inp) = Inl msg \<Longrightarrow> evalStmt env inp s = (Some (ParseError msg), s)"
  by (simp add: evalStmt_def)

lemma evalFunc_rejects:
  assumes "\<not> (\<exists>f b. ParseFile env (funcSource inp) = Inr [FuncDecl f b])"
  shows "\<exists>err. evalFunc env inp s = (Some err, s)"
proof (cases "ParseFile env (funcSource inp)")
  case (Inl msg)
  then show ?thesis by (simp add: evalFunc_def)
next
  case (Inr decls)
  show ?thesis
  proof (cases "length decls = 1")
    case False
    with Inr show ?thesis by (simp add: evalFunc_def)
  next
    case True
    then obtain d where d: "decls = [d]"
      by (cases decls) simp_all
    with Inr assms obtain g where "d = GenDecl g"
      by (cases d) simp_all
    with Inr d show ?thesis by (simp add: evalFunc_def)
  qed
qed

lemma Eval_not_command:
  "\<not> HasPrefix (TrimSpace inp) '':'' \<Longrightarrow>
   Eval env inp s =
     (case evalInput env inp (storeCode (clearQuickFix env s)) of
        (Some err, s') \<Rightarrow> (Some err, s')
      | (None, s') \<Rightarrow> runInput env s')"
  by (simp add: Eval_def Let_def)

text \<open>
  C2, as the code has it. \<open>Eval\<close> tries the expression first and commits to it whatever
  the other parsers would say; it tries the statement list only when the expression does
  not parse, the declaration only when neither parses, and the token scan only when none
  of the three is taken. The declaration is taken only when the input parses as exactly
  one function declaration: any other result of that parse, an error or other
  declarations, goes on to the token scan. (\<open>evalInput\<close> is this part of \<open>Eval\<close>, run on
  the session after the cleanup and the checkpoint.)
\<close>

theorem evalInput_priority:
  "(\<forall>e. ParseExpr env inp = Inr e \<longrightarrow>
        evalInput env inp s =
          (None, appendStatements [ExprStmt (CallExpr (Ident printerName) [e])] s))
   \<and> (\<forall>m1 decls stmts.
        ParseExpr env inp = Inl m1 \<longrightarrow> ParseFile env (stmtSource inp) = Inr decls \<longrightarrow>
        funcBody ''F'' decls = Some (Block stmts) \<longrightarrow>
        evalInput env inp s = (None, appendStatements (stmts @ printLastValues stmts) s))
   \<and> (\<forall>m1 m2 f b.
        ParseExpr env inp = Inl m1 \<longrightarrow> ParseFile env (stmtSource inp) = Inl m2 \<longrightarrow>
        ParseFile env (funcSource inp) = Inr [FuncDecl f b] \<longrightarrow>
        evalInput env inp s =
          (None, s\<lparr>file' := (file' s)\<lparr>Decls :=
                   removeFunc f (Decls (file' s)) @ [FuncDecl f b]\<rparr>\<rparr>))
   \<and> (\<forall>m1 m2.
        ParseExpr env inp = Inl m1 \<longrightarrow> ParseFile env (stmtSource inp) = Inl m2 \<longrightarrow>
        \<not> (\<exists>f b. ParseFile env (funcSource inp) = Inr [FuncDecl f b]) \<longrightarrow>
        evalInput env inp s =
          (case parseTokens env inp of
             Some err \<Rightarrow> (Some err, s\<lparr>stderr := stderr s @ [err]\<rparr>)
           | None \<Rightarrow> (Some ErrContinue, s)))"
proof (intro conjI allI impI)
  fix e
  assume "ParseExpr env inp = Inr e"
  then show "evalInput env inp s =
      (None, appendStatements [ExprStmt (CallExpr (Ident printerName) [e])] s)"
    by (simp add: evalInput_def evalExpr_def)
next
  fix m1 decls stmts
  assume "ParseExpr env inp = Inl m1" and "ParseFile env (stmtSource inp) = Inr decls"
    and "funcBody ''F'' decls = Some (Block stmts)"
  then show "evalInput env inp s = (None, appendStatements (stmts @ printLastValues stmts) s)"
    by (simp add: evalInput_def evalExpr_def evalStmt_def)
next
  fix m1 m2 f b
  assume "ParseExpr env inp = Inl m1" and "ParseFile env (stmtSource inp) = Inl m2"
    and "ParseFile env (funcSource inp) = Inr [FuncDecl f b]"
  then show "evalInput env inp s =
      (None, s\<lparr>file' := (file' s)\<lparr>Decls := removeFunc f (Decls (file' s)) @ [FuncDecl f b]\<rparr>\<rparr>)"
    by (simp add: evalInput_def evalExpr_def evalStmt_parse_error evalFunc_Decls)
next
  fix m1 m2
  assume expr: "ParseExpr env inp = Inl m1" and stmts: "ParseFile env (stmtSource inp) = Inl m2"
    and "\<not> (\<exists>f b. ParseFile env (funcSource inp) = Inr [FuncDecl f b])"
  then obtain err where "evalFunc env inp s = (Some err, s)"
    using evalFunc_rejects by blast
  with expr stmts show "evalInput env inp s =
      (case parseTokens env inp of
         Some err \<Rightarrow> (Some err, s\<lparr>stderr := stderr s @ [err]\<rparr>)
       | None \<Rightarrow> (Some ErrContinue, s))"
    by (simp add: evalInput_def evalExpr_def evalStmt_parse_error)
qed

lemma example_import_parses:
  "ParseExpr (exampleEnv outcome) importInput = Inl ''syntax error''
   \<and> ParseFile (exampleEnv outcome) (stmtSource importInput) = Inl ''syntax error''
   \<and> ParseFile (exampleEnv outcome) (funcSource importInput) = Inr [GenDecl importInput]"
  by (simp add: exampleEnv_def exampleParseFile_def stmtSource_def funcSource_def
      importInput_def)

lemma example_import_scan: "parseTokens (exampleEnv outcome) importInput = None"
  by (simp add: parseTokens_def exampleEnv_def exampleScan_def importInput_def)

theorem evalInput_priority_witness:
  "evalInput (exampleEnv None) ''1 + 1'' initialSession =
     (None, initialSession
        \<lparr>mainBody := [ExprStmt (CallExpr (Ident ''__gore_p'') [OtherExpr ''1 + 1''])]\<rparr>)
   \<and> evalInput (exampleEnv None) importInput initialSession =
     (Some ErrContinue, initialSession)"
proof -
  have expr: "ParseExpr (exampleEnv None) ''1 + 1'' = Inr (OtherExpr ''1 + 1'')"
    by (simp add: exampleEnv_def)
  have no_func: "\<not> (\<exists>f b. ParseFile (exampleEnv None) (funcSource importInput) =
      Inr [FuncDecl f b])"
    by (simp add: example_import_parses)
  from evalInput_priority [of "exampleEnv None" "''1 + 1''" initialSession] expr
  have first: "evalInput (exampleEnv None) ''1 + 1'' initialSession =
      (None, appendStatements
         [ExprStmt (CallExpr (Ident printerName) [OtherExpr ''1 + 1''])] initialSession)"
    by blast
  from evalInput_priority [of "exampleEnv None" importInput initialSession]
    example_import_parses [of None] no_func
  have second: "evalInput (exampleEnv None) importInput initialSession =
      (case parseTokens (exampleEnv None) importInput of
         Some err \<Rightarrow> (Some err, initialSession\<lparr>stderr := stderr initialSession @ [err]\<rparr>)
       | None \<Rightarrow> (Some ErrContinue, initialSession))"
    by blast
  show ?thesis
    unfolding first second
    by (simp add: example_import_scan appendStatements_def printerName_def
        initialSession_def)
qed

text \<open>
  C2 as stated fails on \<open>import "fmt"\<close>: it parses neither as an expression nor as a
  statement list, and it parses as a top-level declaration without any error, yet \<open>Eval\<close>
  does not commit to it: the token scan runs and the input is reported as incomplete,
  the program being left as it was.
\<close>

theorem Eval_import_not_committed:
  "ParseExpr (exampleEnv None) importInput = Inl ''syntax error''
   \<and> ParseFile (exampleEnv None) (stmtSource importInput) = Inl ''syntax error''
   \<and> ParseFile (exampleEnv None) (funcSource importInput) = Inr [GenDecl importInput]
   \<and> Eval (exampleEnv None) importInput initialSession =
       (Some ErrContinue, storeCode initialSession)
   \<and> program (storeCode initialSession) = program initialSession"
proof -
  have no_colon: "\<not> HasPrefix (TrimSpace importInput) '':''"
    by (simp add: importInput_def not_command isSpace_def)
  have cleared: "clearQuickFix (exampleEnv None) initialSession = initialSession"
    by (simp add: clearQuickFix_def setProgram_def program_def exampleEnv_def)
  have "evalInput (exampleEnv None) importInput (storeCode initialSession) =
      (Some ErrContinue, storeCode initialSession)"
    by (simp add: evalInput_def evalExpr_def evalStmt_def evalFunc_def
        example_import_parses example_import_scan)
  with no_colon cleared
  have "Eval (exampleEnv None) importInput initialSession =
      (Some ErrContinue, storeCode initialSession)"
    by (simp add: Eval_def)
  then show ?thesis
    by (simp add: example_import_parses program_def storeCode_def)
qed

lemma scanTokens_None_iff:
  "scanTokens ts = None \<longleftrightarrow>
   ILLEGAL \<notin> set (map fst (takeWhile (\<lambda>p. fst p \<noteq> EOF) ts))"
  by (induction ts rule: scanTokens.induct) (auto simp: image_iff)

lemma scanTokens_Some:
  "scanTokens ts = Some err \<Longrightarrow>
   \<exists>lit. err = InvalidToken lit \<and> (ILLEGAL, lit) \<in> set (takeWhile (\<lambda>p. fst p \<noteq> EOF) ts)"
  by (induction ts rule: scanTokens.induct) (auto split: if_splits)

lemma program_storeCode: "program (storeCode s) = program s"
  by (simp add: program_def storeCode_def)

text \<open>
  C9. When the input is not a command (trimmed of its white space, Unicode's included,
  it does not begin with a colon) and parses neither as an expression nor as a
  statement list nor as a declaration, \<open>Eval\<close> scans its tokens. If a token before the end
  of the input is illegal, \<open>Eval\<close> returns the error that names the first such token and
  prints it on the error stream; otherwise it returns \<open>ErrContinue\<close>. Either way the
  classifier leaves the session it was given untouched: the program after \<open>Eval\<close> is the
  program as the cleanup that opens every \<open>Eval\<close> left it, and the only other change is
  the checkpoint taken of it.
\<close>

theorem Eval_token_fallback:
  assumes "\<not> HasPrefix (TrimSpace inp) '':''"
    and "ParseExpr env inp = Inl m1"
    and "ParseFile env (stmtSource inp) = Inl m2"
    and "ParseFile env (funcSource inp) = Inl m3"
  shows "(ILLEGAL \<in> set (map fst (takeWhile (\<lambda>p. fst p \<noteq> EOF) (Scan env inp))) \<longrightarrow>
            (\<exists>lit. (ILLEGAL, lit) \<in> set (takeWhile (\<lambda>p. fst p \<noteq> EOF) (Scan env inp))
               \<and> Eval env inp s =
                   (Some (InvalidToken lit),
                    (storeCode (clearQuickFix env s))
                      \<lparr>stderr := stderr s @ [InvalidToken lit]\<rparr>)))
       \<and> (ILLEGAL \<notin> set (map fst (takeWhile (\<lambda>p. fst p \<noteq> EOF) (Scan env inp))) \<longrightarrow>
            Eval env inp s = (Some ErrContinue, storeCode (clearQuickFix env s)))
       \<and> program (snd (Eval env inp s)) = program (clearQuickFix env s)
       \<and> (\<forall>c. evalInput env inp c =
            (case parseTokens env inp of
               Some err \<Rightarrow> (Some err, c\<lparr>stderr := stderr c @ [err]\<rparr>)
             | None \<Rightarrow> (Some ErrContinue, c)))"
proof -
  let ?c = "storeCode (clearQuickFix env s)"
  have input: "evalInput env inp c =
      (case parseTokens env inp of
         Some err \<Rightarrow> (Some err, c\<lparr>stderr := stderr c @ [err]\<rparr>)
       | None \<Rightarrow> (Some ErrContinue, c))" for c
    using assms(2-4) by (simp add: evalInput_def evalExpr_def evalStmt_def evalFunc_def)
  have eval: "Eval env inp s =
      (case parseTokens env inp of
         Some err \<Rightarrow> (Some err, ?c\<lparr>stderr := stderr ?c @ [err]\<rparr>)
       | None \<Rightarrow> (Some ErrContinue, ?c))"
    using assms(1) by (simp add: Eval_def Let_def input split: option.splits)
  have err_stream: "stderr ?c = stderr s"
    by (simp add: storeCode_def clearQuickFix_def setProgram_def)
  have illegal: "\<exists>lit. (ILLEGAL, lit) \<in> set (takeWhile (\<lambda>p. fst p \<noteq> EOF) (Scan env inp))
      \<and> Eval env inp s =
          (Some (InvalidToken lit), ?c\<lparr>stderr := stderr s @ [InvalidToken lit]\<rparr>)"
    if "ILLEGAL \<in> set (map fst (takeWhile (\<lambda>p. fst p \<noteq> EOF) (Scan env inp)))"
  proof -
    from that obtain err where err: "scanTokens (Scan env inp) = Some err"
      using scanTokens_None_iff [of "Scan env inp"] by (cases "scanTokens (Scan env inp)") simp_all
    then obtain lit where "err = InvalidToken lit"
      and "(ILLEGAL, lit) \<in> set (takeWhile (\<lambda>p. fst p \<noteq> EOF) (Scan env inp))"
      using scanTokens_Some by blast
    with err show ?thesis
      by (auto simp: eval parseTokens_def err_stream)
  qed
  have complete: "Eval env inp s = (Some ErrContinue, ?c)"
    if "ILLEGAL \<notin> set (map fst (takeWhile (\<lambda>p. fst p \<noteq> EOF) (Scan env inp)))"
    using that scanTokens_None_iff [of "Scan env inp"] by (simp add: eval parseTokens_def)
  have frame: "program (snd (Eval env inp s)) = program (clearQuickFix env s)"
    by (simp add: eval program_def storeCode_def split: option.splits)
  from illegal complete frame input show ?thesis
    by blast
qed

theorem Eval_token_fallback_witness:
  "Eval (exampleEnv None) ''if true {'' initialSession =
     (Some ErrContinue, storeCode initialSession)
   \<and> program (snd (Eval (exampleEnv None) ''if true {'' initialSession)) =
       program initialSession
   \<and> Eval (exampleEnv None) ''#'' initialSession =
     (Some (InvalidToken ''#''), (storeCode initialSession)\<lparr>stderr := [InvalidToken ''#'']\<rparr>)"
proof -
  have cleared: "clearQuickFix (exampleEnv None) initialSession = initialSession"
    by (simp add: clearQuickFix_def setProgram_def program_def exampleEnv_def)
  have a1: "\<not> HasPrefix (TrimSpace ''if true {'') '':''"
    by (simp add: not_command isSpace_def)
  have a2: "ParseExpr (exampleEnv None) ''if true {'' = Inl ''syntax error''"
    by (simp add: exampleEnv_def)
  have a3: "ParseFile (exampleEnv None) (stmtSource ''if true {'') = Inl ''syntax error''"
    by (simp add: exampleEnv_def exampleParseFile_def stmtSource_def funcSource_def
        importInput_def)
  have a4: "ParseFile (exampleEnv None) (funcSource ''if true {'') = Inl ''syntax error''"
    by (simp add: exampleEnv_def exampleParseFile_def stmtSource_def funcSource_def
        importInput_def)
  have scan1: "Scan (exampleEnv None) ''if true {'' =
      [(OtherToken, ''if''), (OtherToken, ''true''), (OtherToken, []), (EOF, [])]"
    by (simp add: exampleEnv_def exampleScan_def)
  have b1: "\<not> HasPrefix (TrimSpace ''#'') '':''"
    by (simp add: not_command isSpace_def)
  have b2: "ParseExpr (exampleEnv None) ''#'' = Inl ''syntax error''"
    by (simp add: exampleEnv_def)
  have b3: "ParseFile (exampleEnv None) (stmtSource ''#'') = Inl ''syntax error''"
    by (simp add: exampleEnv_def exampleParseFile_def stmtSource_def funcSource_def
        importInput_def)
  have b4: "ParseFile (exampleEnv None) (funcSource ''#'') = Inl ''syntax error''"
    by (simp add: exampleEnv_def exampleParseFile_def stmtSource_def funcSource_def
        importInput_def)
  have scan2: "Scan (exampleEnv None) ''#'' = [(ILLEGAL, ''#''), (EOF, [])]"
    by (simp add: exampleEnv_def exampleScan_def importInput_def)
  have err0: "stderr initialSession = []"
    by (simp add: initialSession_def)
  from Eval_token_fallback [OF a1 a2 a3 a4, of initialSession]
  have first: "Eval (exampleEnv None) ''if true {'' initialSession =
       (Some ErrContinue, storeCode initialSession)
     \<and> program (snd (Eval (exampleEnv None) ''if true {'' initialSession)) =
       program initialSession"
    by (simp add: scan1 cleared program_storeCode)
  from Eval_token_fallback [OF b1 b2 b3 b4, of initialSession]
  have second: "Eval (exampleEnv None) ''#'' initialSession =
     (Some (InvalidToken ''#''), (storeCode initialSession)\<lparr>stderr := [InvalidToken ''#'']\<rparr>)"
    by (auto simp: scan2 cleared err0)
  from first second show ?thesis by blast
qed

section \<open>Claims on the rollback of a failed input\<close>









lemma exampleEnv_steps:
  "clearQuickFix (exampleEnv outcome) s = s"
  "doQuickFix (exampleEnv outcome) s = s"
  "Run (exampleEnv outcome) s = outcome"
  by (simp_all add: clearQuickFix_def doQuickFix_def Run_def setProgram_def program_def
      exampleEnv_def)




section \<open>Claims on the commands\<close>

lemma actionType_restores:
  assumes "inp \<noteq> []"
  shows "\<exists>s1. snd (actionType env s inp) = restoreCode s1
          \<and> lastStmts s1 = mainBody (clearQuickFix env s)
          \<and> lastDecls s1 = Decls (file' (clearQuickFix env s))
          \<and> file' s1 = file' (clearQuickFix env s)"
proof -
  let ?c = "storeCode (clearQuickFix env s)"
  show ?thesis
  proof (cases "ParseExpr env inp")
    case (Inl msg)
    with assms have "snd (actionType env s inp) = restoreCode ?c"
      by (simp add: actionType_def evalExpr_def Let_def)
    then show ?thesis
      by (intro exI [of _ ?c]) (simp add: storeCode_def)
  next
    case (Inr e)
    let ?s1 = "appendStatements [ExprStmt (CallExpr (Ident printerName) [e])] ?c"
    have "snd (actionType env s inp) = restoreCode ?s1
        \<or> (\<exists>t. snd (actionType env s inp) = restoreCode (?s1\<lparr>stdout := stdout ?s1 @ [t]\<rparr>))"
      using assms Inr
      by (auto simp: actionType_def evalExpr_def Let_def split: option.splits gotype.splits)
    then show ?thesis
    proof
      assume "snd (actionType env s inp) = restoreCode ?s1"
      then show ?thesis
        by (intro exI [of _ ?s1]) (simp add: storeCode_def appendStatements_def)
    next
      assume "\<exists>t. snd (actionType env s inp) = restoreCode (?s1\<lparr>stdout := stdout ?s1 @ [t]\<rparr>)"
      then obtain t where
        "snd (actionType env s inp) = restoreCode (?s1\<lparr>stdout := stdout ?s1 @ [t]\<rparr>)" ..
      then show ?thesis
        by (intro exI [of _ "?s1\<lparr>stdout := stdout ?s1 @ [t]\<rparr>"])
           (simp add: storeCode_def appendStatements_def)
    qed
  qed
qed

text \<open>
  C10. For every argument, the type command leaves the program as its snapshot found
  it, whether it prints a type or fails: provided no two functions of the program share
  a name (the data model's invariant), the imports, the declarations and the entry-point
  body after the command are those of the session after the cleanup that precedes the
  snapshot, and those of the session itself when the argument is empty. So where that
  cleanup has nothing to change, as in a session that \<open>Eval\<close> has just cleaned before it
  dispatches the command, the program after the command is the program before it.
\<close>

theorem actionType_frame:
  assumes "distinct (funcNames (Decls (file' (clearQuickFix env s))))"
  shows "program (snd (actionType env s inp)) =
           (if inp = [] then program s else program (clearQuickFix env s))
       \<and> (quickFixClear env (program s) = program s \<longrightarrow>
            program (snd (actionType env s inp)) = program s)"
proof -
  let ?c = "clearQuickFix env s"
  have main: "program (snd (actionType env s inp)) =
      (if inp = [] then program s else program ?c)"
  proof (cases "inp = []")
    case True
    then show ?thesis by (simp add: actionType_def)
  next
    case False
    then obtain s1 where s1: "snd (actionType env s inp) = restoreCode s1"
      and stmts: "lastStmts s1 = mainBody ?c"
      and decls: "lastDecls s1 = Decls (file' ?c)"
      and same_file: "file' s1 = file' ?c"
      using actionType_restores by blast
    have "restoreDecls (Decls (file' ?c)) (Decls (file' ?c)) [] = Decls (file' ?c)"
      using assms by (rule restoreDecls_self)
    with stmts decls same_file have "program (restoreCode s1) = program ?c"
      by (simp add: program_def restoreCode_def)
    with False s1 show ?thesis by simp
  qed
  have "program ?c = program s" if "quickFixClear env (program s) = program s"
    using that by (simp add: clearQuickFix_def setProgram_def program_def)
  with main show ?thesis by simp
qed

theorem actionType_frame_witness:
  "distinct (funcNames (Decls (file' (clearQuickFix (exampleEnv None) initialSession))))
   \<and> quickFixClear (exampleEnv None) (program initialSession) = program initialSession
   \<and> actionType (exampleEnv None) initialSession ''1 + 1'' =
       (None, (storeCode initialSession)\<lparr>stdout := [''int'']\<rparr>)
   \<and> program (snd (actionType (exampleEnv None) initialSession ''1 + 1'')) =
       program initialSession"
proof -
  have names: "distinct (funcNames (Decls (file' (clearQuickFix (exampleEnv None) initialSession))))"
    by (simp add: exampleEnv_steps initialSession_def printerName_def)
  have clean: "quickFixClear (exampleEnv None) (program initialSession) = program initialSession"
    by (simp add: exampleEnv_def)
  have out: "actionType (exampleEnv None) initialSession ''1 + 1'' =
       (None, (storeCode initialSession)\<lparr>stdout := [''int'']\<rparr>)"
    by (simp add: actionType_def evalExpr_def appendStatements_def Let_def
        clearQuickFix_def setProgram_def program_def exampleEnv_def restoreCode_def
        storeCode_def initialSession_def printerName_def)
  from actionType_frame [OF names, of "''1 + 1''"] clean
  have "program (snd (actionType (exampleEnv None) initialSession ''1 + 1'')) =
       program initialSession"
    by blast
  with names clean out show ?thesis by simp
qed

lemma actionImport_one:
  "arg \<noteq> [] \<Longrightarrow> CHR '' '' \<notin> set arg \<Longrightarrow>
   actionImport env s arg =
     (case Import env (Trim arg [CHR 0x22]) of
        Some msg \<Rightarrow> (Some (ImportError msg), s)
      | None \<Rightarrow> (None, AddImport (Trim arg [CHR 0x22]) s))"
  by (simp add: actionImport.simps Let_def)

lemma count_list_append_new: "x \<notin> set xs \<Longrightarrow> count_list (xs @ [x]) x = 1"
  by (simp add: count_list_0_iff)

text \<open>
  C7. When the argument is one path (not empty, no blank) that the importer resolves,
  the import command succeeds, and a second call with the same argument succeeds and
  changes nothing: the path, with the quotes around it taken off, is in the import list
  after the first call, and it is there exactly once after both calls when it was there at
  most once before.
\<close>

theorem actionImport_twice:
  assumes "arg \<noteq> []"
    and "CHR '' '' \<notin> set arg"
    and "Import env (Trim arg [CHR 0x22]) = None"
  shows "fst (actionImport env s arg) = None
       \<and> actionImport env (snd (actionImport env s arg)) arg =
           (None, snd (actionImport env s arg))
       \<and> Trim arg [CHR 0x22] \<in> set (Imports (file' (snd (actionImport env s arg))))
       \<and> (count_list (Imports (file' s)) (Trim arg [CHR 0x22]) \<le> 1 \<longrightarrow>
            count_list (Imports (file'
              (snd (actionImport env (snd (actionImport env s arg)) arg))))
              (Trim arg [CHR 0x22]) = 1)"
proof -
  let ?path = "Trim arg [CHR 0x22]"
  have call: "actionImport env s' arg = (None, AddImport ?path s')" for s'
    using assms by (simp add: actionImport_one)
  have present: "?path \<in> set (Imports (file' (AddImport ?path s)))"
    by (simp add: AddImport_def)
  then have again: "AddImport ?path (AddImport ?path s) = AddImport ?path s"
    by (simp add: AddImport_def)
  have once: "count_list (Imports (file' (AddImport ?path s))) ?path = 1"
    if "count_list (Imports (file' s)) ?path \<le> 1"
  proof (cases "?path \<in> set (Imports (file' s))")
    case True
    then have "count_list (Imports (file' s)) ?path \<noteq> 0"
      by (simp add: count_list_0_iff)
    with that True show ?thesis by (simp add: AddImport_def)
  next
    case False
    then show ?thesis by (simp add: AddImport_def count_list_append_new)
  qed
  show ?thesis
    using present once by (simp add: call again)
qed

theorem actionImport_twice_witness:
  "Import (exampleEnv None) (Trim ''os'' [CHR 0x22]) = None
   \<and> count_list (Imports (file' initialSession)) ''os'' \<le> 1
   \<and> Imports (file' (snd (actionImport (exampleEnv None)
        (snd (actionImport (exampleEnv None) initialSession ''os'')) ''os''))) =
       [''fmt'', ''os'']"
proof -
  have a1: "''os'' \<noteq> []" by simp
  have a2: "CHR '' '' \<notin> set ''os''" by simp
  have path: "Trim ''os'' [CHR 0x22] = ''os''"
    by (simp add: Trim_def)
  have a3: "Import (exampleEnv None) (Trim ''os'' [CHR 0x22]) = None"
    by (simp add: path exampleEnv_def)
  have few: "count_list (Imports (file' initialSession)) ''os'' \<le> 1"
    by (simp add: initialSession_def)
  have first: "snd (actionImport (exampleEnv None) initialSession ''os'') =
      initialSession\<lparr>file' := (file' initialSession)\<lparr>Imports := [''fmt'', ''os'']\<rparr>\<rparr>"
    using a3 by (simp add: actionImport_one path AddImport_def initialSession_def)
  from actionImport_twice [OF a1 a2 a3, of initialSession]
  have "actionImport (exampleEnv None)
      (snd (actionImport (exampleEnv None) initialSession ''os'')) ''os'' =
      (None, snd (actionImport (exampleEnv None) initialSession ''os''))"
    by blast
  with a3 few show ?thesis
    by (simp add: first)
qed







section \<open>The invariant of the data model\<close>

lemma funcNames_restore_spec:
  "funcNames (restore_spec lds d) = [] \<or> funcNames (restore_spec lds d) = funcNames [d]"
proof (cases d)
  case (GenDecl g)
  then show ?thesis by (simp add: restore_spec_def)
next
  case (FuncDecl n b)
  show ?thesis
  proof (cases "n = ''main''")
    case True
    with FuncDecl show ?thesis by (simp add: restore_spec_def)
  next
    case False
    with FuncDecl have "restore_spec lds d = lastVersion n lds"
      by (simp add: restore_spec_def lastVersion_find)
    with lastVersion_cases [of n lds] FuncDecl show ?thesis by auto
  qed
qed

lemma funcNames_restored_subset:
  "set (funcNames (concat (map (restore_spec lds) ds))) \<subseteq> set (funcNames ds)"
proof (induction ds)
  case Nil
  show ?case by simp
next
  case (Cons d ds)
  have "funcNames (d # ds) = funcNames [d] @ funcNames ds"
    by (cases d) simp_all
  with Cons funcNames_restore_spec [of lds d] show ?case
    by (auto simp: funcNames_append)
qed

lemma funcNames_restored_distinct:
  "distinct (funcNames ds) \<Longrightarrow> distinct (funcNames (concat (map (restore_spec lds) ds)))"
proof (induction ds)
  case Nil
  show ?case by simp
next
  case (Cons d ds)
  have split: "funcNames (d # ds) = funcNames [d] @ funcNames ds"
    by (cases d) simp_all
  with Cons.prems have tl: "distinct (funcNames ds)"
    and apart: "set (funcNames [d]) \<inter> set (funcNames ds) = {}"
    and hd: "distinct (funcNames [d])"
    by simp_all
  from apart funcNames_restored_subset [of lds ds]
  have "set (funcNames [d]) \<inter> set (funcNames (concat (map (restore_spec lds) ds))) = {}"
    by blast
  with Cons.IH [OF tl] hd funcNames_restore_spec [of lds d] show ?case
    by (auto simp: funcNames_append)
qed

text \<open>
  No two functions of the program share a name: \<open>evalFunc\<close> keeps it so, whatever the
  input, since it cuts the function of the new name out before it appends the new one.
\<close>

theorem evalFunc_keeps_names_distinct:
  assumes "distinct (funcNames (Decls (file' s)))"
  shows "distinct (funcNames (Decls (file' (snd (evalFunc env inp s)))))"
proof (cases "\<exists>f b. ParseFile env (funcSource inp) = Inr [FuncDecl f b]")
  case False
  then obtain err where "evalFunc env inp s = (Some err, s)"
    using evalFunc_rejects by blast
  with assms show ?thesis by simp
next
  case True
  then obtain f b where "ParseFile env (funcSource inp) = Inr [FuncDecl f b]"
    by blast
  then have "Decls (file' (snd (evalFunc env inp s))) =
      removeFunc f (Decls (file' s)) @ [FuncDecl f b]"
    by (simp add: evalFunc_Decls)
  with assms show ?thesis
    by (simp add: funcNames_append funcNames_removeFunc)
qed

theorem evalFunc_keeps_names_distinct_witness:
  "distinct (funcNames (Decls (file' initialSession)))
   \<and> distinct (funcNames (Decls (file'
        (snd (evalFunc (exampleEnv None) ''func g() {}'' initialSession)))))"
proof -
  have names: "distinct (funcNames (Decls (file' initialSession)))"
    by (simp add: initialSession_def printerName_def)
  from evalFunc_keeps_names_distinct [OF names] names show ?thesis
    by simp
qed

text \<open>\<open>restoreCode\<close> keeps it so as well: it renames no function and adds none.\<close>

theorem restoreCode_keeps_names_distinct:
  assumes "distinct (funcNames (Decls (file' s)))"
  shows "distinct (funcNames (Decls (file' (restoreCode s))))"
  using assms by (simp add: Decls_restoreCode funcNames_restored_distinct)

theorem restoreCode_keeps_names_distinct_witness:
  "distinct (funcNames (Decls (file' (storeCode initialSession))))
   \<and> distinct (funcNames (Decls (file' (restoreCode (storeCode initialSession)))))"
proof -
  have names: "distinct (funcNames (Decls (file' (storeCode initialSession))))"
    by (simp add: storeCode_def initialSession_def printerName_def)
  from restoreCode_keeps_names_distinct [OF names] names show ?thesis
    by simp
qed

text \<open>
  Statements accumulate in input order: evaluating the same expression twice leaves two
  print-wrapped copies of it at the end of the entry point.
\<close>

theorem evalExpr_accumulates:
  assumes "ParseExpr env inp = Inr e"
  shows "mainBody (snd (evalExpr env inp (snd (evalExpr env inp s)))) =
           mainBody s @ [ExprStmt (CallExpr (Ident printerName) [e]),
                         ExprStmt (CallExpr (Ident printerName) [e])]"
  using assms by (simp add: evalExpr_def appendStatements_def)

theorem evalExpr_accumulates_witness:
  "mainBody (snd (evalExpr (exampleEnv None) ''1 + 1''
      (snd (evalExpr (exampleEnv None) ''1 + 1'' initialSession)))) =
     [ExprStmt (CallExpr (Ident ''__gore_p'') [OtherExpr ''1 + 1'']),
      ExprStmt (CallExpr (Ident ''__gore_p'') [OtherExpr ''1 + 1''])]"
proof -
  have expr: "ParseExpr (exampleEnv None) ''1 + 1'' = Inr (OtherExpr ''1 + 1'')"
    by (simp add: exampleEnv_def)
  from evalExpr_accumulates [OF expr, of initialSession] show ?thesis
    by (simp add: initialSession_def printerName_def)
qed

end
